theory Spec2Isabelle
  imports Complex_Main "HOL-Library.AList"
begin

section \<open>Data model of the attendance bot (src/4.py)\<close>

text \<open>
  The bot keeps two process-wide dictionaries, \<open>attendance_data\<close> and \<open>salary_data\<close>.
  Python dictionaries keep their keys in insertion order and the handler iterates over
  them, so a dictionary is an association list: \<open>map_of\<close> is the lookup and
  \<open>AList.update\<close> is the assignment \<open>d[k] = v\<close> (it replaces the value where the key
  stands, or appends the pair at the end).

  Keys. The source keys the ledgers by \<open>str(chat.id)\<close>, by \<open>str(uid)\<close> and by the
  \<open>%Y-%m-%d\<close> string of the day. Each of the three formats is injective, and
  \<open>int(str(uid)) = uid\<close>; the model keys by the chat id, the user id and the
  (year, month, day) triple themselves. The \<open>%H:%M:%S\<close> string of an entry is the
  (hour, minute, second) triple.

  Shapes. The records are the dictionaries as the handler itself creates them
  (lines 72, 80, 146-153, 162, 253): every key is present and has the type the handler
  writes, so the defaults of the \<open>.get(key, default)\<close> reads and the
  \<open>isinstance\<close> repairs of \<open>ensure_day_structure\<close> are never taken.
\<close>

type_synonym ('k, 'v) dict = "('k \<times> 'v) list"

type_synonym date = "nat \<times> nat \<times> nat"

record dtime =
  hour :: nat
  minute :: nat
  second :: nat
  microsecond :: nat

record datetime =
  dt_date :: date
  dt_time :: dtime

datatype session = Morning | Evening

record entry =
  user_id :: int
  e_username :: string
  e_date :: date
  e_time :: "nat \<times> nat \<times> nat"
  late :: bool
  e_session :: session

record day_rec =
  morning :: "entry list"
  evening :: "entry list"

record deduction =
  h_date :: date
  amount :: int
  reason :: string

record salary_rec =
  username :: string
  deductions :: int
  history :: "deduction list"

type_synonym group_attendance = "(date, day_rec) dict"
type_synonym group_salary = "(int, salary_rec) dict"

text \<open>
  The state of the process: the two dictionaries in memory, and what \<open>save_all\<close> last
  wrote to the two files (the writes are taken to succeed).
\<close>

record state =
  attendance_data :: "(int, group_attendance) dict"
  salary_data :: "(int, group_salary) dict"
  attendance_file :: "(int, group_attendance) dict"
  salary_file :: "(int, group_salary) dict"

text \<open>
  One inbound update, as \<open>handle_message\<close> reads it: \<open>msg_text\<close> is the local
  \<open>text\<close> of line 119 (the message text, stripped), \<open>from_id\<close>, \<open>from_username\<close>
  and \<open>from_first_name\<close> are \<open>user.id\<close>, \<open>user.username\<close> and \<open>user.first_name\<close>,
  and \<open>chat\<close> is \<open>update.effective_chat\<close> (its id).

  The clock. The handler never takes the time as an argument: \<open>today_str()\<close>,
  \<open>current_session()\<close> and line 126 each call \<open>datetime.now()\<close>, and the source calls
  them again wherever it needs the date. \<open>reads u i\<close> is what the call number \<open>i\<close>
  (counted from 0) returns while the handler runs on \<open>u\<close>. Read 0 is the
  \<open>today_str()\<close> of line 125, read 1 the \<open>now\<close> of line 126, read 2 the one
  \<open>current_session()\<close> makes for line 128; the reads that follow belong to the branch
  taken (lines 253, 272 and 277). Nothing is assumed about the reads; in a run of the
  program they do not decrease, and they may fall on both sides of 13:00:00 or of
  midnight.
\<close>

record update =
  msg_text :: string
  from_id :: int
  from_username :: "string option"
  from_first_name :: string
  chat :: "int option"
  reads :: "nat \<Rightarrow> datetime"

datatype reply =
    NoChat
  | AlreadyMarked session
  | MarkedAdmin session
  | MarkedLate session
  | MarkedOnTime session
  | Count nat
  | AttendanceList "entry list" "entry list"
  | PermissionDenied
  | NoDeductions
  | Deductions "(string \<times> int) list" int
  | DeductionsCleared
  | NoKnownMembers
  | EveryoneMarked session
  | Missing session "(int \<times> string) list"
  | NothingToClear
  | ClearedMissing "(string \<times> int) list" int
  | AttendanceCleared
  | NoReply

section \<open>Configuration (lines 11-22)\<close>

definition ADMIN_IDS :: "int list" where
  "ADMIN_IDS = [7958117532, 7432006334, 8382453545, 5752123952, 7435176780, 7938235371,
     6076562401, 8380524265, 1596100597, 7889757304, 6003851152, 6826941532, 7488322832]"

definition mk_time :: "nat \<Rightarrow> nat \<Rightarrow> nat \<Rightarrow> dtime" where
  "mk_time h m s = \<lparr>hour = h, minute = m, second = s, microsecond = 0\<rparr>"

definition MORNING_START :: dtime where "MORNING_START = mk_time 10 0 0"
definition MORNING_END :: dtime where "MORNING_END = mk_time 10 30 0"
definition EVENING_START :: dtime where "EVENING_START = mk_time 16 30 0"
definition EVENING_END :: dtime where "EVENING_END = mk_time 17 0 0"

definition LATE_PENALTY :: int where "LATE_PENALTY = 50"

section \<open>Helpers (lines 49-88)\<close>

text \<open>
  Python compares two naive \<open>datetime.time\<close> values as the tuples
  (hour, minute, second, microsecond), lexicographically.
\<close>

definition time_lt :: "dtime \<Rightarrow> dtime \<Rightarrow> bool" where
  "time_lt a b =
     (hour a < hour b \<or> (hour a = hour b \<and>
       (minute a < minute b \<or> (minute a = minute b \<and>
         (second a < second b \<or> (second a = second b \<and> microsecond a < microsecond b))))))"

definition time_le :: "dtime \<Rightarrow> dtime \<Rightarrow> bool" where
  "time_le a b =
     (time_lt a b \<or>
       (hour a = hour b \<and> minute a = minute b \<and> second a = second b \<and>
        microsecond a = microsecond b))"

text \<open>
  \<open>today_str\<close> and \<open>current_session\<close> read the clock themselves; the model gives them
  the value of that read.
\<close>

definition today_str :: "datetime \<Rightarrow> date" where
  "today_str now = dt_date now"

definition time_str :: "datetime \<Rightarrow> nat \<times> nat \<times> nat" where
  "time_str now = (hour (dt_time now), minute (dt_time now), second (dt_time now))"

definition current_session :: "datetime \<Rightarrow> session" where
  "current_session now = (if time_lt (dt_time now) (mk_time 13 0 0) then Morning else Evening)"

definition is_within_window :: "datetime \<Rightarrow> bool" where
  "is_within_window dt =
     (let t = dt_time dt in
      if time_le MORNING_START t \<and> time_le t MORNING_END then True
      else if time_le EVENING_START t \<and> time_le t EVENING_END then True
      else False)"

text \<open>\<open>a or b\<close> on strings: the empty string is falsy.\<close>

definition str_or :: "string \<Rightarrow> string \<Rightarrow> string" where
  "str_or a b = (if a \<noteq> [] then a else b)"

text \<open>
  \<open>ensure_user_salary\<close> mutates the group's dictionary and returns the record it holds;
  the model returns the dictionary and the record.
\<close>

definition ensure_user_salary :: "group_salary \<Rightarrow> int \<Rightarrow> string \<Rightarrow> group_salary \<times> salary_rec" where
  "ensure_user_salary group_salary uid uname =
     (case map_of group_salary uid of
        None \<Rightarrow>
          (let r = \<lparr>username = str_or uname ''unknown'', deductions = 0, history = []\<rparr>
           in (AList.update uid r group_salary, r))
      | Some r \<Rightarrow>
          (if uname \<noteq> [] \<and> username r = [] then
             (let r' = r\<lparr>username := uname\<rparr> in (AList.update uid r' group_salary, r'))
           else (group_salary, r)))"

text \<open>
  \<open>ensure_day_structure\<close>, followed by the read \<open>group_att[date]\<close> of line 133.
\<close>

definition ensure_day_structure :: "group_attendance \<Rightarrow> date \<Rightarrow> group_attendance \<times> day_rec" where
  "ensure_day_structure group_attendance d =
     (case map_of group_attendance d of
        None \<Rightarrow>
          (let r = \<lparr>morning = [], evening = []\<rparr> in (AList.update d r group_attendance, r))
      | Some r \<Rightarrow> (group_attendance, r))"

text \<open>\<open>d.setdefault(k, {})\<close>: the dictionary, and the value it holds at \<open>k\<close>.\<close>

definition setdefault :: "('k, ('a, 'b) dict) dict \<Rightarrow> 'k \<Rightarrow> ('k, ('a, 'b) dict) dict \<times> ('a, 'b) dict" where
  "setdefault d k =
     (case map_of d k of None \<Rightarrow> (AList.update k [] d, []) | Some v \<Rightarrow> (d, v))"

definition save_all :: "state \<Rightarrow> state" where
  "save_all s = s\<lparr>attendance_file := attendance_data s, salary_file := salary_data s\<rparr>"

section \<open>The message handler (lines 118-304)\<close>

text \<open>\<open>user.username or user.first_name\<close>: \<open>None\<close> and the empty string are falsy.\<close>

definition display_name :: "update \<Rightarrow> string" where
  "display_name u =
     (case from_username u of None \<Rightarrow> from_first_name u | Some n \<Rightarrow> str_or n (from_first_name u))"

text \<open>\<open>day_rec[session]\<close> and \<open>day_rec[session].append(entry)\<close>.\<close>

definition sess :: "session \<Rightarrow> day_rec \<Rightarrow> entry list" where
  "sess sn d = (case sn of Morning \<Rightarrow> morning d | Evening \<Rightarrow> evening d)"

definition append_entry :: "session \<Rightarrow> entry \<Rightarrow> day_rec \<Rightarrow> day_rec" where
  "append_entry sn e d =
     (case sn of Morning \<Rightarrow> d\<lparr>morning := morning d @ [e]\<rparr> | Evening \<Rightarrow> d\<lparr>evening := evening d @ [e]\<rparr>)"

text \<open>
  Every branch of the handler works on the group's two dictionaries through the
  references \<open>group_att\<close>, \<open>day_rec\<close> (the value at today's date), \<open>group_sal\<close> and
  \<open>user_sal\<close> (the value at the sender's id). A branch of the model returns the two
  dictionaries as it leaves them, the reply, and whether it called \<open>save_all\<close>.
\<close>

type_synonym outcome = "group_attendance \<times> group_salary \<times> reply \<times> bool"

subsection \<open>1: mark attendance (lines 141-170)\<close>

text \<open>
  \<open>d\<close>, \<open>now\<close> and \<open>sn\<close> are the locals \<open>date\<close> (line 125), \<open>now\<close> (line 126) and
  \<open>session\<close> (line 128): three reads of the clock.
\<close>

definition mark ::
  "update \<Rightarrow> date \<Rightarrow> datetime \<Rightarrow> session \<Rightarrow> group_attendance \<Rightarrow> day_rec \<Rightarrow> group_salary \<Rightarrow> salary_rec \<Rightarrow> outcome" where
  "mark u d now sn group_att day_rec group_sal user_sal =
     (if list_ex (\<lambda>e. user_id e = from_id u) (sess sn day_rec) then
        (group_att, group_sal, AlreadyMarked sn, False)
      else
        (let e = \<lparr>user_id = from_id u, e_username = display_name u, e_date = d,
                  e_time = time_str now, late = False, e_session = sn\<rparr>
         in
         if from_id u \<in> set ADMIN_IDS then
           (AList.update d (append_entry sn e day_rec) group_att, group_sal, MarkedAdmin sn, True)
         else if \<not> is_within_window now then
           (AList.update d (append_entry sn (e\<lparr>late := True\<rparr>) day_rec) group_att,
            AList.update (from_id u)
              (user_sal\<lparr>deductions := deductions user_sal + LATE_PENALTY,
                        history := history user_sal @
                          [\<lparr>h_date = d, amount = LATE_PENALTY, reason = ''late''\<rparr>]\<rparr>)
              group_sal,
            MarkedLate sn, True)
         else
           (AList.update d (append_entry sn e day_rec) group_att, group_sal, MarkedOnTime sn, True)))"

subsection \<open>2, 3: count and list (lines 173-188)\<close>

definition count_attendance :: "group_attendance \<Rightarrow> day_rec \<Rightarrow> group_salary \<Rightarrow> outcome" where
  "count_attendance group_att day_rec group_sal =
     (group_att, group_sal, Count (length (morning day_rec) + length (evening day_rec)), False)"

definition show_attendance :: "group_attendance \<Rightarrow> day_rec \<Rightarrow> group_salary \<Rightarrow> outcome" where
  "show_attendance group_att day_rec group_sal =
     (group_att, group_sal, AttendanceList (morning day_rec) (evening day_rec), False)"

subsection \<open>4, 5: show and clear the deductions (lines 191-217)\<close>

definition show_deductions :: "update \<Rightarrow> group_attendance \<Rightarrow> group_salary \<Rightarrow> outcome" where
  "show_deductions u group_att group_sal =
     (if from_id u \<notin> set ADMIN_IDS then (group_att, group_sal, PermissionDenied, False)
      else if group_sal = [] then (group_att, group_sal, NoDeductions, False)
      else (group_att, group_sal,
            Deductions (map (\<lambda>(uid, r). (username r, deductions r)) group_sal)
              (sum_list (map (\<lambda>(uid, r). deductions r) group_sal)),
            False))"

definition clear_deductions :: "update \<Rightarrow> group_attendance \<Rightarrow> group_salary \<Rightarrow> outcome" where
  "clear_deductions u group_att group_sal =
     (if from_id u \<notin> set ADMIN_IDS then (group_att, group_sal, PermissionDenied, False)
      else (group_att,
            map (\<lambda>(uid, r). (uid, r\<lparr>deductions := 0, history := []\<rparr>)) group_sal,
            DeductionsCleared, True))"

subsection \<open>6: find the missing and deduct (lines 220-261)\<close>

text \<open>The pairs collected by the loop of lines 231-235, in the order it visits them.\<close>

definition all_entries :: "group_attendance \<Rightarrow> (int \<times> string) list" where
  "all_entries group_att =
     concat (map (\<lambda>(day, recs).
       concat (map (\<lambda>sn. map (\<lambda>e. (user_id e, e_username e)) (sess sn recs)) [Morning, Evening]))
       group_att)"

text \<open>
  Line 236 turns the collected pairs into a set and the set into a list. The order in
  which Python lists a set is not fixed by the source; it is the parameter \<open>set_list\<close>,
  about which nothing is assumed.
\<close>

definition known_members ::
  "((int \<times> string) set \<Rightarrow> (int \<times> string) list) \<Rightarrow> group_salary \<Rightarrow> group_attendance \<Rightarrow> (int \<times> string) list" where
  "known_members set_list group_sal group_att =
     (if group_sal \<noteq> [] then map (\<lambda>(uid, r). (uid, username r)) group_sal
      else set_list (set (all_entries group_att)))"

definition missing_of :: "(int \<times> string) list \<Rightarrow> entry list \<Rightarrow> (int \<times> string) list" where
  "missing_of members marked =
     filter (\<lambda>(uid, uname). uid \<notin> set (map user_id marked) \<and> uid \<notin> set ADMIN_IDS) members"

text \<open>
  The loop of lines 250-253. Line 253 calls \<open>today_str()\<close> for each missing user: the
  user at position \<open>k\<close> of the list gets the date of read \<open>n + k\<close>.
\<close>

fun deduct_missing ::
  "(nat \<Rightarrow> datetime) \<Rightarrow> nat \<Rightarrow> (int \<times> string) list \<Rightarrow> group_salary \<Rightarrow> group_salary" where
  "deduct_missing rd n [] group_sal = group_sal"
| "deduct_missing rd n ((uid, uname) # rest) group_sal =
     (let (group_sal1, r) = ensure_user_salary group_sal uid uname;
          r' = r\<lparr>deductions := deductions r + LATE_PENALTY,
                 history := history r @
                   [\<lparr>h_date = today_str (rd n), amount = LATE_PENALTY, reason = ''missing''\<rparr>]\<rparr>
      in deduct_missing rd (Suc n) rest (AList.update uid r' group_sal1))"

text \<open>\<open>sn\<close> is the local \<open>session\<close> (read 2); the loop starts at read 3.\<close>

definition find_missing ::
  "((int \<times> string) set \<Rightarrow> (int \<times> string) list) \<Rightarrow> update \<Rightarrow> session \<Rightarrow> group_attendance \<Rightarrow> day_rec \<Rightarrow> group_salary \<Rightarrow> outcome" where
  "find_missing set_list u sn group_att day_rec group_sal =
     (if from_id u \<notin> set ADMIN_IDS then (group_att, group_sal, PermissionDenied, False)
      else
        (let members = known_members set_list group_sal group_att in
         if members = [] then (group_att, group_sal, NoKnownMembers, False)
         else
           (let missing = missing_of members (sess sn day_rec) in
            if missing = [] then (group_att, group_sal, EveryoneMarked sn, False)
            else (group_att, deduct_missing (reads u) 3 missing group_sal,
                  Missing sn missing, True))))"

subsection \<open>7: clear today's missing deductions (lines 264-292)\<close>

text \<open>
  The condition of lines 272 and 277,
  \<open>h.get("date") == today_str() and h.get("reason") == "missing"\<close>, calls
  \<open>today_str()\<close> for every element \<open>h\<close> it is asked about: \<open>now\<close> is that read.
\<close>

definition is_missing_today :: "datetime \<Rightarrow> deduction \<Rightarrow> bool" where
  "is_missing_today now h = (h_date h = today_str now \<and> reason h = ''missing'')"

text \<open>
  A list comprehension \<open>[h for h in hist if P(h)]\<close> whose condition reads the clock: the
  element at position \<open>k\<close> is tested at read \<open>n + k\<close>.
\<close>

fun filter_now :: "(datetime \<Rightarrow> 'a \<Rightarrow> bool) \<Rightarrow> (nat \<Rightarrow> datetime) \<Rightarrow> nat \<Rightarrow> 'a list \<Rightarrow> 'a list" where
  "filter_now P rd n [] = []"
| "filter_now P rd n (h # hs) =
     (if P (rd n) h then h # filter_now P rd (Suc n) hs else filter_now P rd (Suc n) hs)"

text \<open>
  The loop of lines 269-278: the dictionary as it leaves it, and \<open>cleared\<close>. For a record
  with a history of \<open>length hist\<close> events, line 272 takes that many reads; when it finds
  something to remove, line 277 takes as many again.
\<close>

fun clear_missing_loop ::
  "(nat \<Rightarrow> datetime) \<Rightarrow> nat \<Rightarrow> group_salary \<Rightarrow> (string \<times> int) list \<Rightarrow> group_salary \<times> (string \<times> int) list" where
  "clear_missing_loop rd n [] cleared = ([], cleared)"
| "clear_missing_loop rd n ((uid, r) # rest) cleared =
     (let hist = history r;
          to_remove = filter_now is_missing_today rd n hist
      in
      if to_remove = [] then
        (let (rest', cleared') = clear_missing_loop rd (n + length hist) rest cleared
         in ((uid, r) # rest', cleared'))
      else
        (let a = sum_list (map amount to_remove);
             r' = r\<lparr>deductions := max 0 (deductions r - a),
                    history := filter_now (\<lambda>now h. \<not> is_missing_today now h) rd
                                 (n + length hist) hist\<rparr>;
             (rest', cleared') =
               clear_missing_loop rd (n + 2 * length hist) rest (cleared @ [(username r, a)])
         in ((uid, r') # rest', cleared')))"

definition clear_missing :: "update \<Rightarrow> group_attendance \<Rightarrow> group_salary \<Rightarrow> outcome" where
  "clear_missing u group_att group_sal =
     (if from_id u \<notin> set ADMIN_IDS then (group_att, group_sal, PermissionDenied, False)
      else
        (let (group_sal', cleared) = clear_missing_loop (reads u) 3 group_sal [] in
         if cleared = [] then (group_att, group_sal', NothingToClear, False)
         else (group_att, group_sal', ClearedMissing cleared (sum_list (map snd cleared)), True)))"

subsection \<open>0: clear the attendance (lines 295-304)\<close>

definition clear_attendance :: "update \<Rightarrow> group_attendance \<Rightarrow> group_salary \<Rightarrow> outcome" where
  "clear_attendance u group_att group_sal =
     (if from_id u \<notin> set ADMIN_IDS then (group_att, group_sal, PermissionDenied, False)
      else ([], group_sal, AttendanceCleared, True))"

subsection \<open>The handler\<close>

text \<open>
  Lines 131-138, run for every message before the text is looked at: the group's two
  dictionaries, today's day record (at the date of read 0, the local \<open>date\<close>) and the
  sender's salary record, each created when absent.
\<close>

definition ensure_structures ::
  "state \<Rightarrow> update \<Rightarrow> int \<Rightarrow> (int, group_attendance) dict \<times> group_attendance \<times> day_rec \<times> (int, group_salary) dict \<times> group_salary \<times> salary_rec" where
  "ensure_structures s u group_id =
     (let (att, group_att0) = setdefault (attendance_data s) group_id;
          (group_att, day_rec) = ensure_day_structure group_att0 (today_str (reads u 0));
          (sal, group_sal0) = setdefault (salary_data s) group_id;
          (group_sal, user_sal) = ensure_user_salary group_sal0 (from_id u) (display_name u)
      in (att, group_att, day_rec, sal, group_sal, user_sal))"

definition dispatch ::
  "((int \<times> string) set \<Rightarrow> (int \<times> string) list) \<Rightarrow> update \<Rightarrow> group_attendance \<Rightarrow> day_rec \<Rightarrow> group_salary \<Rightarrow> salary_rec \<Rightarrow> outcome" where
  "dispatch set_list u group_att day_rec group_sal user_sal =
     (let d = today_str (reads u 0);
          now = reads u 1;
          sn = current_session (reads u 2)
      in
      if msg_text u = ''1'' then mark u d now sn group_att day_rec group_sal user_sal
      else if msg_text u = ''2'' then count_attendance group_att day_rec group_sal
      else if msg_text u = ''3'' then show_attendance group_att day_rec group_sal
      else if msg_text u = ''4'' then show_deductions u group_att group_sal
      else if msg_text u = ''5'' then clear_deductions u group_att group_sal
      else if msg_text u = ''6'' then find_missing set_list u sn group_att day_rec group_sal
      else if msg_text u = ''7'' then clear_missing u group_att group_sal
      else if msg_text u = ''0'' then clear_attendance u group_att group_sal
      else (group_att, group_sal, NoReply, False))"

text \<open>
  The branches mutate the group's dictionaries in place, inside the two global ones;
  the model stores them back under the group's key.
\<close>

definition store_back :: "state \<Rightarrow> int \<Rightarrow> (int, group_attendance) dict \<Rightarrow> (int, group_salary) dict \<Rightarrow> outcome \<Rightarrow> state \<times> reply" where
  "store_back s group_id att sal out =
     (case out of (group_att, group_sal, r, saved) \<Rightarrow>
        (let s' = s\<lparr>attendance_data := AList.update group_id group_att att,
                     salary_data := AList.update group_id group_sal sal\<rparr>
         in (if saved then save_all s' else s', r)))"

definition handle_message ::
  "((int \<times> string) set \<Rightarrow> (int \<times> string) list) \<Rightarrow> state \<Rightarrow> update \<Rightarrow> state \<times> reply" where
  "handle_message set_list s u =
     (case chat u of
        None \<Rightarrow> (s, NoChat)
      | Some group_id \<Rightarrow>
          (case ensure_structures s u group_id of
             (att, group_att, day_rec, sal, group_sal, user_sal) \<Rightarrow>
               store_back s group_id att sal
                 (dispatch set_list u group_att day_rec group_sal user_sal)))"

text \<open>
  The state at start-up when neither file exists (\<open>load_json\<close> returns \<open>{}\<close> twice), and
  the state after a sequence of messages.
\<close>

definition init_state :: state where
  "init_state = \<lparr>attendance_data = [], salary_data = [], attendance_file = [], salary_file = []\<rparr>"

fun run :: "((int \<times> string) set \<Rightarrow> (int \<times> string) list) \<Rightarrow> state \<Rightarrow> update list \<Rightarrow> state" where
  "run set_list s [] = s"
| "run set_list s (u # us) = run set_list (fst (handle_message set_list s u)) us"

section \<open>Observations used in the statements\<close>

definition at_time :: "date \<Rightarrow> nat \<Rightarrow> nat \<Rightarrow> nat \<Rightarrow> nat \<Rightarrow> datetime" where
  "at_time d h m s us =
     \<lparr>dt_date = d, dt_time = \<lparr>hour = h, minute = m, second = s, microsecond = us\<rparr>\<rparr>"

definition recs_all :: "(int \<Rightarrow> salary_rec \<Rightarrow> bool) \<Rightarrow> group_salary \<Rightarrow> bool" where
  "recs_all P gs = (\<forall>(uid, r) \<in> set gs. P uid r)"

definition salary_all :: "(int \<Rightarrow> salary_rec \<Rightarrow> bool) \<Rightarrow> state \<Rightarrow> bool" where
  "salary_all P s = (\<forall>(g, gs) \<in> set (salary_data s). recs_all P gs)"

definition penalised :: "date \<Rightarrow> string \<Rightarrow> salary_rec \<Rightarrow> salary_rec" where
  "penalised d why r =
     r\<lparr>deductions := deductions r + LATE_PENALTY,
       history := history r @ [\<lparr>h_date = d, amount = LATE_PENALTY, reason = why\<rparr>]\<rparr>"

text \<open>
  A property of salary records that the handler keeps: it holds of a new record, and is
  kept by a name filled in, by a penalty on a user who is not an admin and by the
  clearing of a record (\<open>closed_pred\<close>); and it is kept by what lines 276-277 do to a
  record in which line 272 found something to remove, when the clock reads are \<open>rd\<close>
  (\<open>retract_closed\<close>).
\<close>

definition closed_pred :: "(int \<Rightarrow> salary_rec \<Rightarrow> bool) \<Rightarrow> bool" where
  "closed_pred P =
     ((\<forall>uid n. n \<noteq> [] \<longrightarrow> P uid \<lparr>username = n, deductions = 0, history = []\<rparr>) \<and>
      (\<forall>uid r n. P uid r \<longrightarrow> n \<noteq> [] \<longrightarrow> P uid (r\<lparr>username := n\<rparr>)) \<and>
      (\<forall>uid r d why. P uid r \<longrightarrow> uid \<notin> set ADMIN_IDS \<longrightarrow> P uid (penalised d why r)) \<and>
      (\<forall>uid r. P uid r \<longrightarrow> P uid (r\<lparr>deductions := 0, history := []\<rparr>)))"

definition retract_closed :: "(int \<Rightarrow> salary_rec \<Rightarrow> bool) \<Rightarrow> (nat \<Rightarrow> datetime) \<Rightarrow> bool" where
  "retract_closed P rd =
     (\<forall>uid r k. P uid r \<longrightarrow> filter_now is_missing_today rd k (history r) \<noteq> [] \<longrightarrow>
        P uid (r\<lparr>deductions := max 0 (deductions r -
                   sum_list (map amount (filter_now is_missing_today rd k (history r)))),
                 history := filter_now (\<lambda>now h. \<not> is_missing_today now h) rd
                              (k + length (history r)) (history r)\<rparr>))"

definition group_att_of :: "state \<Rightarrow> int \<Rightarrow> group_attendance" where
  "group_att_of s g = (case map_of (attendance_data s) g of None \<Rightarrow> [] | Some ga \<Rightarrow> ga)"

definition group_sal_of :: "state \<Rightarrow> int \<Rightarrow> group_salary" where
  "group_sal_of s g = (case map_of (salary_data s) g of None \<Rightarrow> [] | Some gs \<Rightarrow> gs)"

definition salary_of :: "state \<Rightarrow> int \<Rightarrow> int \<Rightarrow> salary_rec option" where
  "salary_of s g uid = map_of (group_sal_of s g) uid"

definition marked_in :: "state \<Rightarrow> int \<Rightarrow> date \<Rightarrow> session \<Rightarrow> entry list" where
  "marked_in s g d sn = (case map_of (group_att_of s g) d of None \<Rightarrow> [] | Some dr \<Rightarrow> sess sn dr)"

definition deductions_of :: "state \<Rightarrow> int \<Rightarrow> int \<Rightarrow> int" where
  "deductions_of s g uid = (case salary_of s g uid of None \<Rightarrow> 0 | Some r \<Rightarrow> deductions r)"

definition history_of :: "state \<Rightarrow> int \<Rightarrow> int \<Rightarrow> deduction list" where
  "history_of s g uid = (case salary_of s g uid of None \<Rightarrow> [] | Some r \<Rightarrow> history r)"

text \<open>The state after a branch has stored the group's dictionaries back.\<close>

definition stored :: "state \<Rightarrow> int \<Rightarrow> group_attendance \<Rightarrow> group_salary \<Rightarrow> bool \<Rightarrow> state" where
  "stored s g ga gs sv =
     (let s' = s\<lparr>attendance_data := AList.update g ga (attendance_data s),
                  salary_data := AList.update g gs (salary_data s)\<rparr>
      in if sv then save_all s' else s')"

definition admin_clean :: "int \<Rightarrow> salary_rec \<Rightarrow> bool" where
  "admin_clean uid r = (if uid \<in> set ADMIN_IDS then history r = [] \<and> deductions r = 0 else True)"

definition named :: "int \<Rightarrow> salary_rec \<Rightarrow> bool" where
  "named uid r = (username r \<noteq> [])"

definition day_unique :: "day_rec \<Rightarrow> bool" where
  "day_unique dr = (distinct (map user_id (morning dr)) \<and> distinct (map user_id (evening dr)))"

definition days_unique :: "group_attendance \<Rightarrow> bool" where
  "days_unique ga = (\<forall>(d, dr) \<in> set ga. day_unique dr)"

definition marks_unique :: "state \<Rightarrow> bool" where
  "marks_unique s = (\<forall>(g, ga) \<in> set (attendance_data s). days_unique ga)"

subsection \<open>Concrete messages\<close>

definition day1 :: date where "day1 = (2025, 1, 15)"

definition day2 :: date where "day2 = (2025, 1, 16)"

text \<open>
  A message during whose handling every read of the clock returns the same instant, and
  one with the reads given.
\<close>

definition msg :: "string \<Rightarrow> int \<Rightarrow> string \<Rightarrow> int \<Rightarrow> datetime \<Rightarrow> update" where
  "msg t uid name g now =
     \<lparr>msg_text = t, from_id = uid, from_username = Some name, from_first_name = name,
      chat = Some g, reads = (\<lambda>i. now)\<rparr>"

definition msg_reads :: "string \<Rightarrow> int \<Rightarrow> string \<Rightarrow> int \<Rightarrow> (nat \<Rightarrow> datetime) \<Rightarrow> update" where
  "msg_reads t uid name g rd =
     \<lparr>msg_text = t, from_id = uid, from_username = Some name, from_first_name = name,
      chat = Some g, reads = rd\<rparr>"

definition scenario_admin :: "update list" where
  "scenario_admin =
     [msg ''1'' 7958117532 ''boss'' 1 (at_time day1 12 0 0 0),
      msg ''hi'' 42 ''vee'' 1 (at_time day1 12 5 0 0),
      msg ''6'' 7432006334 ''chief'' 1 (at_time day1 12 30 0 0)]"

text \<open>
  The two windows of lines 18-21 as closed intervals of the time of day: what
  \<open>is_within_window\<close> tests.
\<close>

definition on_time :: "dtime \<Rightarrow> bool" where
  "on_time t =
     ((time_le (mk_time 10 0 0) t \<and> time_le t (mk_time 10 30 0)) \<or>
      (time_le (mk_time 16 30 0) t \<and> time_le t (mk_time 17 0 0)))"

text \<open>
  A handler run that starts just before 13:00:00 and ends just after: reads 0 and 1
  return 12:59:59.999999, the reads from 2 on return 13:00:00.000001.
\<close>

definition across_one_pm :: "nat \<Rightarrow> datetime" where
  "across_one_pm i = (if i < 2 then at_time day1 12 59 59 999999 else at_time day1 13 0 0 1)"

definition mark_across_one_pm :: update where
  "mark_across_one_pm = msg_reads ''1'' 42 ''vee'' 1 across_one_pm"

definition mark_at_half_past_twelve :: update where
  "mark_at_half_past_twelve = msg ''1'' 42 ''vee'' 1 (at_time day1 12 30 0 0)"

definition entries_of :: "state \<Rightarrow> int \<Rightarrow> date \<Rightarrow> int \<Rightarrow> entry list" where
  "entries_of s g d uid =
     filter (\<lambda>e. user_id e = uid) (marked_in s g d Morning @ marked_in s g d Evening)"

text \<open>
  Retraction as the specification words it (section 4.3, \<open>retract\<close>), for one date
  \<open>d\<close>: the events removed from a record, the record after the retraction, and the
  report. \<open>one_day rd d\<close> says that every clock read of a handler run falls on the
  date \<open>d\<close>.
\<close>

definition removed_events :: "date \<Rightarrow> salary_rec \<Rightarrow> deduction list" where
  "removed_events d r = filter (\<lambda>h. h_date h = d \<and> reason h = ''missing'') (history r)"

definition retract_record :: "date \<Rightarrow> salary_rec \<Rightarrow> salary_rec" where
  "retract_record d r =
     (if removed_events d r = [] then r
      else r\<lparr>deductions := max 0 (deductions r - sum_list (map amount (removed_events d r))),
             history := filter (\<lambda>h. \<not> (h_date h = d \<and> reason h = ''missing'')) (history r)\<rparr>)"

definition retract_report :: "date \<Rightarrow> group_salary \<Rightarrow> (string \<times> int) list" where
  "retract_report d gs =
     map (\<lambda>(uid, r). (username r, sum_list (map amount (removed_events d r))))
       (filter (\<lambda>(uid, r). removed_events d r \<noteq> []) gs)"

definition one_day :: "(nat \<Rightarrow> datetime) \<Rightarrow> date \<Rightarrow> bool" where
  "one_day rd d = (\<forall>i. today_str (rd i) = d)"

definition ledger_ok :: "int \<Rightarrow> salary_rec \<Rightarrow> bool" where
  "ledger_ok uid r =
     (deductions r = sum_list (map amount (history r)) \<and> list_all (\<lambda>h. 0 \<le> amount h) (history r))"

text \<open>
  A handler run that starts just before midnight and ends just after: the reads up to
  read 3 return 23:59:59.999999 of \<open>day1\<close>, the reads from 4 on return 00:00:00.000001
  of \<open>day2\<close>. In the retraction loop read 3 is the \<open>today_str()\<close> of line 272 for the
  first event of the first record, and read 4 the one of line 277 for the same event.
\<close>

definition across_midnight :: "nat \<Rightarrow> datetime" where
  "across_midnight i = (if i < 4 then at_time day1 23 59 59 999999 else at_time day2 0 0 0 1)"

definition retract_across_midnight :: update where
  "retract_across_midnight = msg_reads ''7'' 7958117532 ''boss'' 1 across_midnight"

definition scenario_midnight :: "update list" where
  "scenario_midnight =
     [msg ''hello'' 43 ''bee'' 1 (at_time day1 23 50 0 0),
      msg ''6'' 7958117532 ''boss'' 1 (at_time day1 23 55 0 0),
      retract_across_midnight]"

definition one_missing_event :: group_salary where
  "one_missing_event =
     [(43, \<lparr>username = ''bee'', deductions = 50,
            history = [\<lparr>h_date = day1, amount = 50, reason = ''missing''\<rparr>]\<rparr>)]"

text \<open>
  The members the sweep reads off a salary ledger (lines 228-229), and the group's salary
  ledger as the branches find it: after line 138 has ensured the sender's record.
\<close>

definition members_of :: "group_salary \<Rightarrow> (int \<times> string) list" where
  "members_of gs = map (\<lambda>(uid, r). (uid, username r)) gs"

definition ledger_at_dispatch :: "state \<Rightarrow> update \<Rightarrow> int \<Rightarrow> group_salary" where
  "ledger_at_dispatch s u g =
     fst (ensure_user_salary (group_sal_of s g) (from_id u) (display_name u))"

text \<open>
  The scenario of the specification: members A (41), B (42) and C (43) of group 1, of
  whom only A marked the morning session, and two sweeps by an admin in that session.
\<close>

definition scenario_abc :: "update list" where
  "scenario_abc =
     [msg ''1'' 41 ''aye'' 1 (at_time day1 10 5 0 0),
      msg ''hi'' 42 ''bee'' 1 (at_time day1 10 6 0 0),
      msg ''hi'' 43 ''cee'' 1 (at_time day1 10 7 0 0)]"

definition sweep1 :: update where
  "sweep1 = msg ''6'' 7958117532 ''boss'' 1 (at_time day1 11 0 0 0)"

definition sweep2 :: update where
  "sweep2 = msg ''6'' 7958117532 ''boss'' 1 (at_time day1 11 5 0 0)"

text \<open>The salary ledger of every group has distinct keys (it is a dictionary).\<close>

definition keys_distinct :: "state \<Rightarrow> bool" where
  "keys_distinct s = (\<forall>g. distinct (map fst (group_sal_of s g)))"

definition hello_nameless :: update where
  "hello_nameless =
     \<lparr>msg_text = ''hello'', from_id = 42, from_username = None, from_first_name = [],
      chat = Some 1, reads = (\<lambda>i. at_time day1 9 0 0 0)\<rparr>"

section \<open>Loading a store at start-up (load_json, lines 27-38)\<close>

text \<open>
  The values \<open>json.load\<close> returns. A JSON object is a Python dictionary, kept as an
  association list; a number is an \<open>int\<close> or a \<open>float\<close>, and \<open>json.load\<close> also accepts
  the texts \<open>NaN\<close>, \<open>Infinity\<close> and \<open>-Infinity\<close>.
\<close>

datatype pyfloat = Finite real | PosInf | NegInf | NaN

datatype json =
    JNull
  | JBool bool
  | JInt int
  | JFloat pyfloat
  | JStr string
  | JList "json list"
  | JDict "(string \<times> json) list"

text \<open>
  Python's truth value of such a value: \<open>None\<close>, \<open>False\<close>, a zero number and an empty
  string, list or dictionary are false, everything else is true. \<open>a or b\<close> is \<open>a\<close> when
  \<open>a\<close> is true and \<open>b\<close> otherwise.
\<close>

fun truthy :: "json \<Rightarrow> bool" where
  "truthy JNull = False"
| "truthy (JBool b) = b"
| "truthy (JInt i) = (i \<noteq> 0)"
| "truthy (JFloat x) = (x \<noteq> Finite 0)"
| "truthy (JStr s) = (s \<noteq> [])"
| "truthy (JList xs) = (xs \<noteq> [])"
| "truthy (JDict kvs) = (kvs \<noteq> [])"

definition py_or :: "json \<Rightarrow> json \<Rightarrow> json" where
  "py_or a b = (if truthy a then a else b)"

text \<open>
  What the calls of \<open>load_json\<close> can raise. \<open>except Exception\<close> catches the instances of
  \<open>Exception\<close>; \<open>KeyboardInterrupt\<close> and \<open>SystemExit\<close> derive from \<open>BaseException\<close> only and
  pass through it.
\<close>

datatype exn =
    OSError
  | JSONDecodeError
  | UnicodeDecodeError
  | RecursionError
  | MemoryError
  | KeyboardInterrupt
  | SystemExit

fun is_Exception :: "exn \<Rightarrow> bool" where
  "is_Exception KeyboardInterrupt = False"
| "is_Exception SystemExit = False"
| "is_Exception OSError = True"
| "is_Exception JSONDecodeError = True"
| "is_Exception UnicodeDecodeError = True"
| "is_Exception RecursionError = True"
| "is_Exception MemoryError = True"

text \<open>
  The file system as \<open>load_json\<close> sees it: a path that exists is either a regular file
  that can be opened for reading, with its bytes, or something \<open>open\<close> refuses (a
  directory, a file without read permission).
\<close>

datatype node = Unopenable | Bytes string

type_synonym fs = "string \<Rightarrow> node option"

definition os_path_exists :: "fs \<Rightarrow> string \<Rightarrow> bool" where
  "os_path_exists files path = (files path \<noteq> None)"

definition open_read :: "fs \<Rightarrow> string \<Rightarrow> exn + string" where
  "open_read files path =
     (case files path of
        None \<Rightarrow> Inl OSError
      | Some Unopenable \<Rightarrow> Inl OSError
      | Some (Bytes b) \<Rightarrow> Inr b)"

text \<open>
  \<open>os.rename(src, dst)\<close>. The operating system may refuse it (on Windows when \<open>dst\<close>
  exists, anywhere when the directory is not writable); \<open>refuse\<close> says whether it does and
  with what. When it goes through, \<open>src\<close> is gone and \<open>dst\<close> is what \<open>src\<close> was.
\<close>

definition os_rename ::
  "(fs \<Rightarrow> string \<Rightarrow> string \<Rightarrow> exn option) \<Rightarrow> fs \<Rightarrow> string \<Rightarrow> string \<Rightarrow> exn + fs" where
  "os_rename refuse files src dst =
     (case files src of
        None \<Rightarrow> Inl OSError
      | Some n \<Rightarrow>
          (case refuse files src dst of
             Some e \<Rightarrow> Inl e
           | None \<Rightarrow> Inr ((files(src := None))(dst \<mapsto> n))))"

text \<open>
  Lines 31-32, \<open>with open(path, "r", encoding="utf-8") as f: json.load(f)\<close>: the file is
  opened and \<open>json.load\<close> decodes and parses its bytes. The parser is the library's; the
  model takes it as the function \<open>json_load\<close> from the bytes to the parsed value or to
  what it raises.
\<close>

definition read_store :: "(string \<Rightarrow> exn + json) \<Rightarrow> fs \<Rightarrow> string \<Rightarrow> exn + json" where
  "read_store json_load files path =
     (case open_read files path of
        Inl e \<Rightarrow> Inl e
      | Inr b \<Rightarrow> json_load b)"

text \<open>
  \<open>load_json\<close>. The result is what the function raises, or the value it returns together
  with the file system it leaves.
\<close>

definition load_json ::
  "(string \<Rightarrow> exn + json) \<Rightarrow> (fs \<Rightarrow> string \<Rightarrow> string \<Rightarrow> exn option) \<Rightarrow> fs \<Rightarrow> string \<Rightarrow>
     exn + json \<times> fs" where
  "load_json json_load refuse files path =
     (if \<not> os_path_exists files path then Inr (JDict [], files)
      else
        (case read_store json_load files path of
           Inr v \<Rightarrow> Inr (py_or v (JDict []), files)
         | Inl e \<Rightarrow>
             if \<not> is_Exception e then Inl e
             else
               (case os_rename refuse files path (path @ ''.bak'') of
                  Inr files' \<Rightarrow> Inr (JDict [], files')
                | Inl e' \<Rightarrow> if is_Exception e' then Inr (JDict [], files) else Inl e')))"

definition DATA_FILE :: string where
  "DATA_FILE = ''attendance_records.json''"

definition SALARY_FILE :: string where
  "SALARY_FILE = ''salary_records.json''"

text \<open>
  Scenarios. \<open>json_load_sample\<close> is \<open>json.load\<close> on the four texts the scenarios store
  (\<open>[]\<close>, \<open>null\<close>, \<open>{}\<close> and \<open>{"-100": {}}\<close>) and raises \<open>JSONDecodeError\<close> on the others,
  among them the truncated text \<open>{\<close>.
\<close>

definition one_group_text :: string where
  "one_group_text = ''{'' @ [CHR 0x22] @ ''-100'' @ [CHR 0x22] @ '': {}}''"

definition json_load_sample :: "string \<Rightarrow> exn + json" where
  "json_load_sample b =
     (if b = ''[]'' then Inr (JList [])
      else if b = ''null'' then Inr JNull
      else if b = ''{}'' then Inr (JDict [])
      else if b = one_group_text then Inr (JDict [(''-100'', JDict [])])
      else Inl JSONDecodeError)"

definition rename_allowed :: "fs \<Rightarrow> string \<Rightarrow> string \<Rightarrow> exn option" where
  "rename_allowed files src dst = None"

definition rename_refused :: "fs \<Rightarrow> string \<Rightarrow> string \<Rightarrow> exn option" where
  "rename_refused files src dst = Some OSError"

definition only_attendance :: "string \<Rightarrow> fs" where
  "only_attendance b = (\<lambda>p. if p = DATA_FILE then Some (Bytes b) else None)"

section \<open>The attendance windows\<close>

lemmas window_defs = is_within_window_def time_le_def time_lt_def MORNING_START_def
  MORNING_END_def EVENING_START_def EVENING_END_def mk_time_def at_time_def

text \<open>
  C8. The two windows are closed intervals: a check-in at exactly 10:00:00, 10:30:00,
  16:30:00 or 17:00:00 is inside a window (on time), while one at 10:30:01 or 17:00:01
  (with any microseconds) is outside both (late); so is one second before either window
  opens.
\<close>

theorem window_boundaries_inclusive:
  "is_within_window (at_time d 10 0 0 0) \<and> is_within_window (at_time d 10 30 0 0) \<and>
   is_within_window (at_time d 16 30 0 0) \<and> is_within_window (at_time d 17 0 0 0) \<and>
   \<not> is_within_window (at_time d 10 30 1 us) \<and> \<not> is_within_window (at_time d 17 0 1 us) \<and>
   \<not> is_within_window (at_time d 9 59 59 us) \<and> \<not> is_within_window (at_time d 16 29 59 us)"
  by (simp add: window_defs)

lemma current_session_hour:
  "current_session now = (if hour (dt_time now) < 13 then Morning else Evening)"
  by (simp add: current_session_def time_lt_def mk_time_def)

section \<open>Properties of every salary record\<close>

lemma set_update_subset: "set (AList.update k v al) \<subseteq> insert (k, v) (set al)"
  by (induction al) auto

lemma recs_all_update: "recs_all P gs \<Longrightarrow> P k v \<Longrightarrow> recs_all P (AList.update k v gs)"
  using set_update_subset [of k v gs] by (auto simp: recs_all_def)

lemma recs_all_lookup: "recs_all P gs \<Longrightarrow> map_of gs k = Some r \<Longrightarrow> P k r"
  by (auto simp: recs_all_def dest: map_of_SomeD)

lemma ensure_user_salary_all:
  assumes "closed_pred P" "recs_all P gs" "ensure_user_salary gs uid n = (gs', r)"
  shows "recs_all P gs' \<and> P uid r \<and> map_of gs' uid = Some r"
proof (cases "map_of gs uid")
  case None
  have "str_or n ''unknown'' \<noteq> []" by (simp add: str_or_def)
  with assms(1) have "P uid \<lparr>username = str_or n ''unknown'', deductions = 0, history = []\<rparr>"
    unfolding closed_pred_def by blast
  with None assms(2,3) show ?thesis
    by (auto simp: ensure_user_salary_def Let_def update_conv' intro: recs_all_update)
next
  case (Some r0)
  with assms(2) have p0: "P uid r0" by (rule recs_all_lookup)
  with assms(1) have "n \<noteq> [] \<Longrightarrow> P uid (r0\<lparr>username := n\<rparr>)"
    unfolding closed_pred_def by blast
  with Some p0 assms(2,3) show ?thesis
    by (auto simp: ensure_user_salary_def Let_def update_conv' intro: recs_all_update split: if_splits)
qed

lemma deduct_missing_all:
  assumes "closed_pred P"
  shows "recs_all P gs \<Longrightarrow> \<forall>(uid, n) \<in> set ms. uid \<notin> set ADMIN_IDS \<Longrightarrow>
         recs_all P (deduct_missing rd k ms gs)"
proof (induction ms arbitrary: gs k)
  case Nil
  then show ?case by simp
next
  case (Cons m ms)
  obtain uid n where m: "m = (uid, n)" by (cases m)
  obtain gs1 r where e: "ensure_user_salary gs uid n = (gs1, r)" by (cases "ensure_user_salary gs uid n")
  let ?d = "today_str (rd k)"
  from ensure_user_salary_all [OF assms Cons.prems(1) e]
  have a: "recs_all P gs1" and b: "P uid r" by simp_all
  from Cons.prems(2) m have na: "uid \<notin> set ADMIN_IDS" by simp
  with assms b have "P uid (penalised ?d ''missing'' r)"
    unfolding closed_pred_def by blast
  with a have "recs_all P (AList.update uid (penalised ?d ''missing'' r) gs1)"
    by (rule recs_all_update)
  then have "recs_all P (deduct_missing rd (Suc k) ms (AList.update uid (penalised ?d ''missing'' r) gs1))"
    using Cons.prems(2) by (intro Cons.IH) simp_all
  then show ?case
    by (simp add: m e penalised_def)
qed

lemma set_filter_now: "set (filter_now Q rd k hs) \<subseteq> set hs"
  by (induction hs arbitrary: k) auto

lemma recs_all_Cons: "recs_all P ((uid, r) # gs) = (P uid r \<and> recs_all P gs)"
  by (simp add: recs_all_def)

lemma clear_missing_loop_all:
  assumes "retract_closed P rd"
  shows "recs_all P gs \<Longrightarrow> recs_all P (fst (clear_missing_loop rd k gs c))"
proof (induction gs arbitrary: k c)
  case Nil
  then show ?case by simp
next
  case (Cons p gs)
  obtain uid r where p: "p = (uid, r)" by (cases p)
  from Cons.prems p have pr: "P uid r" and rest: "recs_all P gs"
    by (simp_all add: recs_all_Cons)
  let ?rem = "filter_now is_missing_today rd k (history r)"
  let ?keep = "filter_now (\<lambda>now h. \<not> is_missing_today now h) rd (k + length (history r)) (history r)"
  show ?case
  proof (cases "?rem = []")
    case True
    then show ?thesis
      using pr Cons.IH [OF rest, of "k + length (history r)" c]
      by (auto simp: p recs_all_Cons split: prod.splits)
  next
    case False
    with assms pr
    have "P uid (r\<lparr>deductions := max 0 (deductions r - sum_list (map amount ?rem)), history := ?keep\<rparr>)"
      unfolding retract_closed_def by blast
    then show ?thesis
      using False
        Cons.IH [OF rest, of "k + 2 * length (history r)"
          "c @ [(username r, sum_list (map amount ?rem))]"]
      by (auto simp: p recs_all_Cons Let_def split: prod.splits)
  qed
qed

lemma recs_all_Nil: "recs_all P []"
  by (simp add: recs_all_def)

lemma setdefault_facts:
  assumes "setdefault d k = (d', v)"
  shows "set d' \<subseteq> insert (k, []) (set d)" and "v = [] \<or> (k, v) \<in> set d" and "map_of d' k = Some v"
  using assms set_update_subset [of k "[]" d]
  by (auto simp: setdefault_def update_conv' split: option.splits dest: map_of_SomeD)

lemma mark_all:
  assumes "closed_pred P" "recs_all P gs" "P (from_id u) user_sal"
    and "mark u d now sn ga dr gs user_sal = (ga', gs', r, sv)"
  shows "recs_all P gs'"
proof -
  have "from_id u \<notin> set ADMIN_IDS \<Longrightarrow> P (from_id u) (penalised d ''late'' user_sal)"
    using assms(1,3) unfolding closed_pred_def by blast
  then have "from_id u \<notin> set ADMIN_IDS \<Longrightarrow>
     recs_all P (AList.update (from_id u) (penalised d ''late'' user_sal) gs)"
    using assms(2) by (intro recs_all_update)
  then show ?thesis
    using assms(2,4) by (auto simp: mark_def Let_def penalised_def split: if_splits)
qed

lemma missing_of_not_admin: "\<forall>(uid, n) \<in> set (missing_of members marked). uid \<notin> set ADMIN_IDS"
  by (auto simp: missing_of_def)

lemma find_missing_all:
  assumes "closed_pred P" "recs_all P gs" "find_missing sl u sn ga dr gs = (ga', gs', r, sv)"
  shows "recs_all P gs'"
proof -
  have "recs_all P (deduct_missing (reads u) 3
          (missing_of (known_members sl gs ga) (sess sn dr)) gs)"
    by (rule deduct_missing_all [OF assms(1,2) missing_of_not_admin])
  with assms(2,3) show ?thesis
    by (auto simp: find_missing_def Let_def split: if_splits)
qed

lemma recs_all_map:
  assumes "recs_all P gs" "\<And>uid r. P uid r \<Longrightarrow> P uid (f r)"
  shows "recs_all P (map (\<lambda>(uid, r). (uid, f r)) gs)"
  using assms by (auto simp: recs_all_def)

lemma clear_deductions_all:
  assumes "closed_pred P" "recs_all P gs" "clear_deductions u ga gs = (ga', gs', r, sv)"
  shows "recs_all P gs'"
proof -
  have "recs_all P (map (\<lambda>(uid, r). (uid, r\<lparr>deductions := 0, history := []\<rparr>)) gs)"
    using assms(2)
  proof (rule recs_all_map)
    fix uid r assume "P uid r"
    with assms(1) show "P uid (r\<lparr>deductions := 0, history := []\<rparr>)"
      unfolding closed_pred_def by blast
  qed
  with assms(2,3) show ?thesis
    by (auto simp: clear_deductions_def split: if_splits)
qed

lemma clear_missing_all:
  assumes "retract_closed P (reads u)" "recs_all P gs" "clear_missing u ga gs = (ga', gs', r, sv)"
  shows "recs_all P gs'"
proof -
  have "recs_all P (fst (clear_missing_loop (reads u) 3 gs []))"
    using assms(1,2) by (rule clear_missing_loop_all)
  with assms(2,3) show ?thesis
    by (auto simp: clear_missing_def split: if_splits prod.splits)
qed

lemma dispatch_cases:
  assumes "dispatch sl u ga dr gs user_sal = out"
  obtains "mark u (today_str (reads u 0)) (reads u 1) (current_session (reads u 2)) ga dr gs user_sal = out"
    | "\<exists>r. out = (ga, gs, r, False)"
    | "clear_deductions u ga gs = out"
    | "find_missing sl u (current_session (reads u 2)) ga dr gs = out"
    | "clear_missing u ga gs = out"
    | "clear_attendance u ga gs = out"
  using assms
  by (simp add: dispatch_def Let_def count_attendance_def show_attendance_def show_deductions_def
      split: if_splits) blast+

lemma dispatch_all:
  assumes "closed_pred P" "recs_all P gs" "P (from_id u) user_sal"
    and "dispatch sl u ga dr gs user_sal = (ga', gs', r, sv)"
    and rc: "retract_closed P (reads u)"
  shows "recs_all P gs'"
  using assms(4)
proof (cases rule: dispatch_cases)
  case 1
  then show ?thesis by (rule mark_all [OF assms(1,2,3)])
next
  case 2
  then show ?thesis using assms(2) by auto
next
  case 3
  then show ?thesis by (rule clear_deductions_all [OF assms(1,2)])
next
  case 4
  then show ?thesis by (rule find_missing_all [OF assms(1,2)])
next
  case 5
  then show ?thesis by (rule clear_missing_all [OF rc assms(2)])
next
  case 6
  then show ?thesis using assms(2) by (auto simp: clear_attendance_def split: if_splits)
qed

lemma salary_data_save_all: "salary_data (save_all s) = salary_data s"
  by (simp add: save_all_def)

lemma handle_message_all:
  assumes "closed_pred P" "salary_all P s" and rc: "retract_closed P (reads u)"
  shows "salary_all P (fst (handle_message sl s u))"
proof (cases "chat u")
  case None
  then show ?thesis using assms(2) by (simp add: handle_message_def)
next
  case (Some g)
  obtain att ga0 where sa: "setdefault (attendance_data s) g = (att, ga0)"
    by (cases "setdefault (attendance_data s) g")
  obtain ga dr where ed: "ensure_day_structure ga0 (today_str (reads u 0)) = (ga, dr)"
    by (cases "ensure_day_structure ga0 (today_str (reads u 0))")
  obtain sal gs0 where ss: "setdefault (salary_data s) g = (sal, gs0)"
    by (cases "setdefault (salary_data s) g")
  obtain gs user_sal where eu: "ensure_user_salary gs0 (from_id u) (display_name u) = (gs, user_sal)"
    by (cases "ensure_user_salary gs0 (from_id u) (display_name u)")
  obtain ga' gs' r sv where di: "dispatch sl u ga dr gs user_sal = (ga', gs', r, sv)"
    by (cases "dispatch sl u ga dr gs user_sal") auto
  from setdefault_facts(2) [OF ss] assms(2) have "recs_all P gs0"
    by (auto simp: salary_all_def recs_all_Nil)
  from ensure_user_salary_all [OF assms(1) this eu]
  have gsP: "recs_all P gs" and usP: "P (from_id u) user_sal" by simp_all
  have g': "recs_all P gs'" by (rule dispatch_all [OF assms(1) gsP usP di rc])
  have "set (AList.update g gs' sal) \<subseteq> insert (g, gs') (insert (g, []) (set (salary_data s)))"
    using set_update_subset [of g gs' sal] setdefault_facts(1) [OF ss] by auto
  with g' assms(2) have "\<forall>(g, gs) \<in> set (AList.update g gs' sal). recs_all P gs"
    by (auto simp: salary_all_def recs_all_Nil)
  then show ?thesis
    by (simp add: handle_message_def Some ensure_structures_def sa ed ss eu di store_back_def
        salary_all_def salary_data_save_all Let_def)
qed

lemma run_all:
  assumes "closed_pred P"
  shows "salary_all P s \<Longrightarrow> \<forall>u \<in> set us. retract_closed P (reads u) \<Longrightarrow>
         salary_all P (run sl s us)"
proof (induction us arbitrary: s)
  case Nil
  then show ?case by simp
next
  case (Cons u us)
  have "salary_all P (fst (handle_message sl s u))"
    using assms Cons.prems(1) by (rule handle_message_all) (use Cons.prems(2) in simp)
  then show ?case using Cons.prems(2) by (simp add: Cons.IH)
qed

lemma update_setdefault: "AList.update k v (fst (setdefault d k)) = AList.update k v d"
  by (simp add: setdefault_def update_triv split: option.splits)

lemma snd_setdefault: "snd (setdefault d k) = (case map_of d k of None \<Rightarrow> [] | Some v \<Rightarrow> v)"
  by (simp add: setdefault_def split: option.splits)

lemma handle_message_Some:
  assumes "chat u = Some g"
    and "ensure_day_structure (group_att_of s g) (today_str (reads u 0)) = (ga, dr)"
    and "ensure_user_salary (group_sal_of s g) (from_id u) (display_name u) = (gs, us)"
    and "dispatch sl u ga dr gs us = (ga', gs', r, sv)"
  shows "handle_message sl s u = (stored s g ga' gs' sv, r)"
proof -
  obtain att ga0 where sa: "setdefault (attendance_data s) g = (att, ga0)"
    by (cases "setdefault (attendance_data s) g")
  obtain sal gs0 where ss: "setdefault (salary_data s) g = (sal, gs0)"
    by (cases "setdefault (salary_data s) g")
  have ga0: "ga0 = group_att_of s g" and gs0: "gs0 = group_sal_of s g"
    using snd_setdefault [of "attendance_data s" g] snd_setdefault [of "salary_data s" g] sa ss
    by (simp_all add: group_att_of_def group_sal_of_def)
  have att: "AList.update g ga' att = AList.update g ga' (attendance_data s)"
    using update_setdefault [of g ga' "attendance_data s"] sa by simp
  have sal: "AList.update g gs' sal = AList.update g gs' (salary_data s)"
    using update_setdefault [of g gs' "salary_data s"] ss by simp
  show ?thesis
    using assms
    by (simp add: handle_message_def ensure_structures_def sa ss ga0 [symmetric] gs0 [symmetric]
        store_back_def stored_def att sal Let_def)
qed

lemma group_sal_of_stored: "group_sal_of (stored s g ga gs sv) g' = (if g' = g then gs else group_sal_of s g')"
  by (simp add: group_sal_of_def stored_def Let_def save_all_def update_conv')

lemma group_att_of_stored: "group_att_of (stored s g ga gs sv) g' = (if g' = g then ga else group_att_of s g')"
  by (simp add: group_att_of_def stored_def Let_def save_all_def update_conv')

lemma closed_admin_clean: "closed_pred admin_clean"
  unfolding closed_pred_def
  by (auto simp: admin_clean_def penalised_def)

lemma retract_closed_admin_clean: "retract_closed admin_clean rd"
  unfolding retract_closed_def
  by (auto simp: admin_clean_def)

lemma closed_named: "closed_pred named"
  unfolding closed_pred_def
  by (auto simp: named_def penalised_def)

lemma retract_closed_named: "retract_closed named rd"
  unfolding retract_closed_def
  by (auto simp: named_def)

lemma salary_allD:
  assumes "salary_all P s" "(g, gs) \<in> set (salary_data s)" "(uid, r) \<in> set gs"
  shows "P uid r"
proof -
  from assms(1,2) have "recs_all P gs" unfolding salary_all_def by blast
  with assms(3) show ?thesis unfolding recs_all_def by blast
qed

lemma salary_all_init: "salary_all P init_state"
  by (simp add: salary_all_def init_state_def)

lemmas run_defs = handle_message_def ensure_structures_def setdefault_def ensure_day_structure_def
  ensure_user_salary_def store_back_def dispatch_def mark_def count_attendance_def
  show_attendance_def show_deductions_def clear_deductions_def find_missing_def known_members_def
  missing_of_def clear_missing_def clear_attendance_def save_all_def init_state_def
  display_name_def str_or_def sess_def append_entry_def today_str_def time_str_def
  current_session_def is_missing_today_def ADMIN_IDS_def LATE_PENALTY_def msg_def msg_reads_def
  day1_def day2_def group_sal_of_def group_att_of_def salary_of_def marked_in_def

lemma scenario_admin_state:
  "salary_data (run sl init_state scenario_admin) =
     [(1, [(7958117532, \<lparr>username = ''boss'', deductions = 0, history = []\<rparr>),
           (42, \<lparr>username = ''vee'', deductions = 50,
                 history = [\<lparr>h_date = day1, amount = 50, reason = ''missing''\<rparr>]\<rparr>),
           (7432006334, \<lparr>username = ''chief'', deductions = 0, history = []\<rparr>)])]"
  by (simp add: scenario_admin_def run_defs window_defs Let_def)

section \<open>Admins are never deducted\<close>

text \<open>
  C5. Admin immunity: from a ledger in which no admin has a deduction (the empty ledger
  of \<open>init_state\<close> is one), after any sequence of messages (marks at any time of
  day, sweeps, and every other message), the salary record of an admin id, where there is
  one, has an empty history and zero deductions.
\<close>

theorem admin_immunity:
  assumes "salary_all admin_clean s"
    and "(g, gs) \<in> set (salary_data (run sl s us))" and "(uid, r) \<in> set gs"
    and "uid \<in> set ADMIN_IDS"
  shows "history r = [] \<and> deductions r = 0"
proof -
  have "salary_all admin_clean (run sl s us)"
    using closed_admin_clean assms(1) by (rule run_all) (simp add: retract_closed_admin_clean)
  then have "admin_clean uid r" using assms(2,3) by (rule salary_allD)
  with assms(4) show ?thesis by (simp add: admin_clean_def)
qed

theorem admin_immunity_witness:
  "\<forall>sl. salary_all admin_clean init_state \<and> 7958117532 \<in> set ADMIN_IDS \<and>
     \<not> is_within_window (at_time day1 12 0 0 0) \<and>
     (\<exists>gs r. (1, gs) \<in> set (salary_data (run sl init_state scenario_admin)) \<and>
        (7958117532, r) \<in> set gs \<and> history r = [] \<and> deductions r = 0)"
proof (intro allI conjI)
  fix sl
  let ?r = "\<lparr>username = ''boss'', deductions = 0, history = []\<rparr>"
  let ?gs = "[(7958117532, ?r),
           (42, \<lparr>username = ''vee'', deductions = 50,
                 history = [\<lparr>h_date = day1, amount = 50, reason = ''missing''\<rparr>]\<rparr>),
           (7432006334, \<lparr>username = ''chief'', deductions = 0, history = []\<rparr>)]"
  show i: "salary_all admin_clean init_state" by (rule salary_all_init)
  show a: "7958117532 \<in> set ADMIN_IDS" by (simp add: ADMIN_IDS_def)
  show "\<not> is_within_window (at_time day1 12 0 0 0)" by (simp add: window_defs)
  have m: "(1, ?gs) \<in> set (salary_data (run sl init_state scenario_admin))"
    by (simp add: scenario_admin_state)
  have n: "(7958117532, ?r) \<in> set ?gs" by simp
  have "history ?r = [] \<and> deductions ?r = 0"
    by (rule admin_immunity [OF i m n a])
  with m n show "\<exists>gs r. (1, gs) \<in> set (salary_data (run sl init_state scenario_admin)) \<and>
        (7958117532, r) \<in> set gs \<and> history r = [] \<and> deductions r = 0"
    by (intro exI [of _ ?gs] exI [of _ ?r]) simp
qed

section \<open>Marking attendance\<close>

lemma ensure_day_structure_facts:
  assumes "ensure_day_structure ga0 d = (ga, dr)"
  shows "map_of ga = (map_of ga0)(d \<mapsto> dr)"
    and "dr = (case map_of ga0 d of None \<Rightarrow> \<lparr>morning = [], evening = []\<rparr> | Some x \<Rightarrow> x)"
  using assms
  by (auto simp: ensure_day_structure_def Let_def update_conv' split: option.splits)

lemma ensure_user_salary_facts:
  assumes "ensure_user_salary gs0 uid n = (gs, us)"
  shows "map_of gs = (map_of gs0)(uid \<mapsto> us)"
    and "deductions us = (case map_of gs0 uid of None \<Rightarrow> 0 | Some r \<Rightarrow> deductions r)"
    and "history us = (case map_of gs0 uid of None \<Rightarrow> [] | Some r \<Rightarrow> history r)"
  using assms
  by (auto simp: ensure_user_salary_def Let_def update_conv' split: option.splits if_splits)

lemma sess_append_entry:
  "sess sn (append_entry sn' e dr) = (if sn = sn' then sess sn dr @ [e] else sess sn dr)"
  by (cases sn; cases sn') (simp_all add: sess_def append_entry_def)

lemma salary_of_stored:
  "salary_of (stored s g ga gs sv) g' uid = (if g' = g then map_of gs uid else salary_of s g' uid)"
  by (simp add: salary_of_def group_sal_of_stored)

lemma marked_in_stored:
  "marked_in (stored s g ga gs sv) g' d sn =
     (if g' = g then (case map_of ga d of None \<Rightarrow> [] | Some dr \<Rightarrow> sess sn dr)
      else marked_in s g' d sn)"
  by (simp add: marked_in_def group_att_of_stored)

lemma deductions_of_stored:
  "deductions_of (stored s g ga gs sv) g uid = (case map_of gs uid of None \<Rightarrow> 0 | Some r \<Rightarrow> deductions r)"
  by (simp add: deductions_of_def salary_of_stored)

lemma history_of_stored:
  "history_of (stored s g ga gs sv) g uid = (case map_of gs uid of None \<Rightarrow> [] | Some r \<Rightarrow> history r)"
  by (simp add: history_of_def salary_of_stored)

section \<open>No user twice in a session list\<close>

lemma days_unique_update: "days_unique ga \<Longrightarrow> day_unique dr \<Longrightarrow> days_unique (AList.update d dr ga)"
  using set_update_subset [of d dr ga] by (auto simp: days_unique_def)

lemma days_unique_lookup: "days_unique ga \<Longrightarrow> map_of ga d = Some dr \<Longrightarrow> day_unique dr"
  by (auto simp: days_unique_def dest: map_of_SomeD)

lemma day_unique_sess: "day_unique dr \<Longrightarrow> distinct (map user_id (sess sn dr))"
  by (cases sn) (simp_all add: day_unique_def sess_def)

lemma day_unique_append:
  "day_unique dr \<Longrightarrow> \<not> list_ex (\<lambda>x. user_id x = user_id e) (sess sn dr) \<Longrightarrow>
   day_unique (append_entry sn e dr)"
  by (cases sn) (auto simp: day_unique_def sess_def append_entry_def list_ex_iff)

lemma ensure_day_structure_unique:
  assumes "days_unique ga0" "ensure_day_structure ga0 d = (ga, dr)"
  shows "days_unique ga \<and> day_unique dr"
proof (cases "map_of ga0 d")
  case None
  have e: "day_unique \<lparr>morning = [], evening = []\<rparr>" by (simp add: day_unique_def)
  from assms(1) e have "days_unique (AList.update d \<lparr>morning = [], evening = []\<rparr> ga0)"
    by (rule days_unique_update)
  with None e assms(2) show ?thesis
    by (auto simp: ensure_day_structure_def Let_def)
next
  case (Some x)
  from assms(1) Some have "day_unique x" by (rule days_unique_lookup)
  with Some assms show ?thesis
    by (auto simp: ensure_day_structure_def Let_def)
qed

lemma mark_unique:
  assumes "days_unique ga" "day_unique dr" "mark u (today_str (reads u 0)) (reads u 1) (current_session (reads u 2)) ga dr gs us = (ga', gs', r, sv)"
  shows "days_unique ga'"
proof (cases "list_ex (\<lambda>e. user_id e = from_id u) (sess (current_session (reads u 2)) dr)")
  case True
  then show ?thesis using assms by (simp add: mark_def Let_def)
next
  case False
  have "\<And>e. user_id e = from_id u \<Longrightarrow>
      days_unique (AList.update (today_str (reads u 0)) (append_entry (current_session (reads u 2)) e dr) ga)"
    using False assms(1,2) by (intro days_unique_update day_unique_append) simp_all
  then show ?thesis
    using False assms(3) by (auto simp: mark_def Let_def split: if_splits)
qed

lemma dispatch_unique:
  assumes "days_unique ga" "day_unique dr" "dispatch sl u ga dr gs us = (ga', gs', r, sv)"
  shows "days_unique ga'"
  using assms(3)
proof (cases rule: dispatch_cases)
  case 1
  then show ?thesis by (rule mark_unique [OF assms(1,2)])
next
  case 2
  then show ?thesis using assms(1) by auto
next
  case 3
  then show ?thesis using assms(1) by (auto simp: clear_deductions_def split: if_splits)
next
  case 4
  then show ?thesis using assms(1) by (auto simp: find_missing_def Let_def split: if_splits)
next
  case 5
  then show ?thesis using assms(1)
    by (auto simp: clear_missing_def Let_def split: if_splits prod.splits)
next
  case 6
  then show ?thesis using assms(1)
    by (auto simp: clear_attendance_def days_unique_def split: if_splits)
qed

lemma attendance_data_stored:
  "attendance_data (stored s g ga gs sv) = AList.update g ga (attendance_data s)"
  by (simp add: stored_def Let_def save_all_def)

lemma salary_data_stored:
  "salary_data (stored s g ga gs sv) = AList.update g gs (salary_data s)"
  by (simp add: stored_def Let_def save_all_def)

lemma days_unique_Nil: "days_unique []"
  by (simp add: days_unique_def)

lemma group_att_of_unique:
  assumes "marks_unique s"
  shows "days_unique (group_att_of s g)"
proof (cases "map_of (attendance_data s) g")
  case None
  then show ?thesis by (simp add: group_att_of_def days_unique_Nil)
next
  case (Some ga)
  then have "(g, ga) \<in> set (attendance_data s)" by (rule map_of_SomeD)
  with assms have "days_unique ga" unfolding marks_unique_def by blast
  with Some show ?thesis by (simp add: group_att_of_def)
qed

lemma handle_message_unique:
  assumes "marks_unique s"
  shows "marks_unique (fst (handle_message sl s u))"
proof (cases "chat u")
  case None
  then show ?thesis using assms by (simp add: handle_message_def)
next
  case (Some g)
  let ?d = "today_str (reads u 0)"
  obtain ga dr where ed: "ensure_day_structure (group_att_of s g) ?d = (ga, dr)"
    by (cases "ensure_day_structure (group_att_of s g) ?d")
  obtain gs us where eu: "ensure_user_salary (group_sal_of s g) (from_id u) (display_name u) = (gs, us)"
    by (cases "ensure_user_salary (group_sal_of s g) (from_id u) (display_name u)")
  obtain ga' gs' r sv where di: "dispatch sl u ga dr gs us = (ga', gs', r, sv)"
    by (cases "dispatch sl u ga dr gs us") auto
  note hm = handle_message_Some [OF Some ed eu di]
  from ensure_day_structure_unique [OF group_att_of_unique [OF assms] ed]
  have a: "days_unique ga" and b: "day_unique dr" by simp_all
  have c: "days_unique ga'" by (rule dispatch_unique [OF a b di])
  show ?thesis
    using assms c set_update_subset [of g ga' "attendance_data s"]
    by (auto simp: hm attendance_data_stored marks_unique_def)
qed

lemma marks_unique_init: "marks_unique init_state"
  by (simp add: marks_unique_def init_state_def)

lemma run_unique: "marks_unique s \<Longrightarrow> marks_unique (run sl s us)"
  by (induction us arbitrary: s) (simp_all add: handle_message_unique)

lemma handle_message_already_marked:
  assumes "chat u = Some g" and "msg_text u = ''1''"
    and "map_of (attendance_data s) g = Some ga" and "map_of ga (today_str (reads u 0)) = Some dr"
    and "map_of (salary_data s) g = Some gs" and "map_of gs (from_id u) = Some r"
    and "username r \<noteq> []"
    and "list_ex (\<lambda>e. user_id e = from_id u) (sess (current_session (reads u 2)) dr)"
  shows "handle_message sl s u = (s, AlreadyMarked (current_session (reads u 2)))"
proof -
  have a: "group_att_of s g = ga" and b: "group_sal_of s g = gs"
    using assms(3,5) by (simp_all add: group_att_of_def group_sal_of_def)
  have ed: "ensure_day_structure (group_att_of s g) (today_str (reads u 0)) = (ga, dr)"
    using assms(4) by (simp add: a ensure_day_structure_def)
  have eu: "ensure_user_salary (group_sal_of s g) (from_id u) (display_name u) = (gs, r)"
    using assms(6,7) by (simp add: b ensure_user_salary_def)
  have di: "dispatch sl u ga dr gs r = (ga, gs, AlreadyMarked (current_session (reads u 2)), False)"
    using assms(2,8) by (simp add: dispatch_def mark_def Let_def)
  have "stored s g ga gs False = s"
    using assms(3,5) by (simp add: stored_def Let_def update_triv)
  with handle_message_Some [OF assms(1) ed eu di] show ?thesis by simp
qed

lemma mark_marks:
  assumes "mark u (today_str (reads u 0)) (reads u 1) (current_session (reads u 2)) ga dr gs us = (ga', gs', r, sv)" and "map_of ga (today_str (reads u 0)) = Some dr"
  shows "\<exists>dr'. map_of ga' (today_str (reads u 0)) = Some dr' \<and>
     list_ex (\<lambda>e. user_id e = from_id u) (sess (current_session (reads u 2)) dr')"
  using assms
  by (auto simp: mark_def Let_def update_conv' sess_append_entry list_ex_iff split: if_splits)

lemma handle_message_registers:
  assumes "chat u = Some g"
  shows "map_of (attendance_data (fst (handle_message sl s u))) g =
      Some (group_att_of (fst (handle_message sl s u)) g)"
    and "map_of (salary_data (fst (handle_message sl s u))) g =
      Some (group_sal_of (fst (handle_message sl s u)) g)"
proof -
  let ?d = "today_str (reads u 0)"
  obtain ga dr where ed: "ensure_day_structure (group_att_of s g) ?d = (ga, dr)"
    by (cases "ensure_day_structure (group_att_of s g) ?d")
  obtain gs us where eu: "ensure_user_salary (group_sal_of s g) (from_id u) (display_name u) = (gs, us)"
    by (cases "ensure_user_salary (group_sal_of s g) (from_id u) (display_name u)")
  obtain ga' gs' r sv where di: "dispatch sl u ga dr gs us = (ga', gs', r, sv)"
    by (cases "dispatch sl u ga dr gs us") auto
  note hm = handle_message_Some [OF assms ed eu di]
  show "map_of (attendance_data (fst (handle_message sl s u))) g =
      Some (group_att_of (fst (handle_message sl s u)) g)"
    by (simp add: hm attendance_data_stored group_att_of_stored update_conv')
  show "map_of (salary_data (fst (handle_message sl s u))) g =
      Some (group_sal_of (fst (handle_message sl s u)) g)"
    by (simp add: hm salary_data_stored group_sal_of_stored update_conv')
qed

lemma keys_ensure_user_salary:
  "ensure_user_salary gs0 uid n = (gs, us) \<Longrightarrow> dom (map_of gs) = insert uid (dom (map_of gs0))"
  by (simp add: ensure_user_salary_facts(1))

lemma keys_deduct_missing: "dom (map_of gs) \<subseteq> dom (map_of (deduct_missing rd k ms gs))"
proof (induction ms arbitrary: gs k)
  case Nil
  then show ?case by simp
next
  case (Cons m ms)
  obtain uid n where m: "m = (uid, n)" by (cases m)
  obtain gs1 r where e: "ensure_user_salary gs uid n = (gs1, r)" by (cases "ensure_user_salary gs uid n")
  let ?d = "today_str (rd k)"
  have "dom (map_of gs) \<subseteq> dom (map_of gs1)"
    using keys_ensure_user_salary [OF e] by blast
  also have "\<dots> \<subseteq> dom (map_of (AList.update uid (penalised ?d ''missing'' r) gs1))"
    by (simp add: update_conv' subset_insertI)
  also have "\<dots> \<subseteq> dom (map_of (deduct_missing rd (Suc k) ms (AList.update uid (penalised ?d ''missing'' r) gs1)))"
    by (rule Cons.IH)
  finally show ?case by (simp add: m e penalised_def)
qed

lemma keys_clear_missing_loop: "map fst (fst (clear_missing_loop rd k gs c)) = map fst gs"
proof (induction gs arbitrary: k c)
  case Nil
  then show ?case by simp
next
  case (Cons p gs)
  obtain uid r where p: "p = (uid, r)" by (cases p)
  show ?case by (simp add: p Let_def split_beta Cons.IH)
qed

lemma map_of_map_values:
  "map_of (map (\<lambda>(uid, r). (uid, f r)) gs) k = map_option f (map_of gs k)"
  by (induction gs) auto

lemma keys_map_values: "dom (map_of (map (\<lambda>(uid, r). (uid, f r)) gs)) = dom (map_of gs)"
  by (auto simp: map_of_map_values dom_def)

lemma keys_dispatch:
  assumes "dispatch sl u ga dr gs us = (ga', gs', r, sv)"
  shows "dom (map_of gs) \<subseteq> dom (map_of gs')"
  using assms
proof (cases rule: dispatch_cases)
  case 1
  then have "gs' = gs \<or> (\<exists>v. gs' = AList.update (from_id u) v gs)"
    by (auto simp: mark_def Let_def split: if_splits)
  then show ?thesis by (auto simp: update_conv')
next
  case 2
  then show ?thesis by auto
next
  case 3
  then have "gs' = gs \<or> gs' = map (\<lambda>(uid, r). (uid, r\<lparr>deductions := 0, history := []\<rparr>)) gs"
    by (auto simp: clear_deductions_def split: if_splits)
  then show ?thesis using keys_map_values [of "\<lambda>r. r\<lparr>deductions := 0, history := []\<rparr>" gs]
    by (elim disjE) simp_all
next
  case 4
  then have "gs' = gs \<or> (\<exists>ms. gs' = deduct_missing (reads u) 3 ms gs)"
    by (auto simp: find_missing_def Let_def split: if_splits)
  then show ?thesis using keys_deduct_missing [of gs] by blast
next
  case 5
  then have "gs' = gs \<or> gs' = fst (clear_missing_loop (reads u) 3 gs [])"
    by (auto simp: clear_missing_def split: if_splits prod.splits)
  then have "map fst gs' = map fst gs" by (auto simp: keys_clear_missing_loop)
  then have "fst ` set gs' = fst ` set gs" by (metis list.set_map)
  then show ?thesis by (simp add: dom_map_of_conv_image_fst)
next
  case 6
  then have "gs' = gs" by (auto simp: clear_attendance_def split: if_splits)
  then show ?thesis by simp
qed

lemma handle_message_keeps_keys:
  assumes "chat u = Some g"
  shows "insert (from_id u) (dom (salary_of s g)) \<subseteq> dom (salary_of (fst (handle_message sl s u)) g)"
proof -
  let ?d = "today_str (reads u 0)"
  obtain ga dr where ed: "ensure_day_structure (group_att_of s g) ?d = (ga, dr)"
    by (cases "ensure_day_structure (group_att_of s g) ?d")
  obtain gs us where eu: "ensure_user_salary (group_sal_of s g) (from_id u) (display_name u) = (gs, us)"
    by (cases "ensure_user_salary (group_sal_of s g) (from_id u) (display_name u)")
  obtain ga' gs' r sv where di: "dispatch sl u ga dr gs us = (ga', gs', r, sv)"
    by (cases "dispatch sl u ga dr gs us") auto
  note hm = handle_message_Some [OF assms ed eu di]
  have a: "salary_of s g = map_of (group_sal_of s g)"
    and b: "salary_of (fst (handle_message sl s u)) g = map_of gs'"
    by (auto simp: salary_of_def fun_eq_iff hm group_sal_of_stored)
  show ?thesis
    using keys_ensure_user_salary [OF eu] keys_dispatch [OF di]
    unfolding a b by blast
qed

lemma handle_message_other_group:
  assumes "chat u = Some g" "g' \<noteq> g"
  shows "group_sal_of (fst (handle_message sl s u)) g' = group_sal_of s g'"
    and "group_att_of (fst (handle_message sl s u)) g' = group_att_of s g'"
proof -
  let ?d = "today_str (reads u 0)"
  obtain ga dr where ed: "ensure_day_structure (group_att_of s g) ?d = (ga, dr)"
    by (cases "ensure_day_structure (group_att_of s g) ?d")
  obtain gs us where eu: "ensure_user_salary (group_sal_of s g) (from_id u) (display_name u) = (gs, us)"
    by (cases "ensure_user_salary (group_sal_of s g) (from_id u) (display_name u)")
  obtain ga' gs' r sv where di: "dispatch sl u ga dr gs us = (ga', gs', r, sv)"
    by (cases "dispatch sl u ga dr gs us") auto
  note hm = handle_message_Some [OF assms(1) ed eu di]
  show "group_sal_of (fst (handle_message sl s u)) g' = group_sal_of s g'"
    using assms(2) by (simp add: hm group_sal_of_stored)
  show "group_att_of (fst (handle_message sl s u)) g' = group_att_of s g'"
    using assms(2) by (simp add: hm group_att_of_stored)
qed

lemma handle_message_marks:
  assumes "chat u = Some g" and "msg_text u = ''1''"
  shows "\<exists>dr'. map_of (group_att_of (fst (handle_message sl s u)) g) (today_str (reads u 0)) = Some dr' \<and>
     list_ex (\<lambda>e. user_id e = from_id u) (sess (current_session (reads u 2)) dr')"
proof -
  let ?d = "today_str (reads u 0)"
  obtain ga dr where ed: "ensure_day_structure (group_att_of s g) ?d = (ga, dr)"
    by (cases "ensure_day_structure (group_att_of s g) ?d")
  obtain gs us where eu: "ensure_user_salary (group_sal_of s g) (from_id u) (display_name u) = (gs, us)"
    by (cases "ensure_user_salary (group_sal_of s g) (from_id u) (display_name u)")
  obtain ga' gs' r sv where di: "dispatch sl u ga dr gs us = (ga', gs', r, sv)"
    by (cases "dispatch sl u ga dr gs us") auto
  note hm = handle_message_Some [OF assms(1) ed eu di]
  have mk: "mark u (today_str (reads u 0)) (reads u 1) (current_session (reads u 2)) ga dr gs us = (ga', gs', r, sv)"
    using di assms(2) by (simp add: dispatch_def)
  have "map_of ga ?d = Some dr"
    using ensure_day_structure_facts(1) [OF ed] by simp
  from mark_marks [OF mk this] show ?thesis
    by (simp add: hm group_att_of_stored)
qed

lemma distinct_filter_one:
  "distinct (map f xs) \<Longrightarrow> list_ex (\<lambda>e. f e = a) xs \<Longrightarrow> length (filter (\<lambda>e. f e = a) xs) = 1"
proof (induction xs)
  case Nil
  then show ?case by simp
next
  case (Cons x xs)
  show ?case
  proof (cases "f x = a")
    case True
    with Cons.prems(1) have "\<forall>e \<in> set xs. f e \<noteq> a"
      by (auto simp: image_iff)
    then have "filter (\<lambda>e. f e = a) xs = []"
      by (simp add: filter_empty_conv)
    with True show ?thesis by simp
  next
    case False
    with Cons show ?thesis by simp
  qed
qed

section \<open>What a mark does\<close>

lemma is_within_window_on_time: "is_within_window now = on_time (dt_time now)"
  by (auto simp: is_within_window_def on_time_def MORNING_START_def MORNING_END_def
      EVENING_START_def EVENING_END_def Let_def)

text \<open>
  What one mark does, read by read. For a user who is not an admin and is not yet in the
  list that the session of read 2 selects in the day record of read 0: the entry is
  appended to that list, stamped with the time of read 1 and late exactly when read 1 is
  outside both closed windows; a late mark adds 50 and one "late" event dated by read 0.
\<close>

lemma mark_effect:
  assumes "chat u = Some g" and "msg_text u = ''1''" and "from_id u \<notin> set ADMIN_IDS"
    and "\<not> list_ex (\<lambda>e. user_id e = from_id u)
           (marked_in s g (today_str (reads u 0)) (current_session (reads u 2)))"
  shows "current_session (reads u 2) =
      (if hour (dt_time (reads u 2)) < 13 then Morning else Evening) \<and>
    snd (handle_message sl s u) =
      (if on_time (dt_time (reads u 1)) then MarkedOnTime (current_session (reads u 2))
       else MarkedLate (current_session (reads u 2))) \<and>
    marked_in (fst (handle_message sl s u)) g (today_str (reads u 0)) (current_session (reads u 2)) =
      marked_in s g (today_str (reads u 0)) (current_session (reads u 2)) @
        [\<lparr>user_id = from_id u, e_username = display_name u, e_date = today_str (reads u 0),
          e_time = time_str (reads u 1), late = (\<not> on_time (dt_time (reads u 1))),
          e_session = current_session (reads u 2)\<rparr>] \<and>
    deductions_of (fst (handle_message sl s u)) g (from_id u) =
      deductions_of s g (from_id u) + (if on_time (dt_time (reads u 1)) then 0 else 50) \<and>
    history_of (fst (handle_message sl s u)) g (from_id u) =
      history_of s g (from_id u) @
        (if on_time (dt_time (reads u 1)) then []
         else [\<lparr>h_date = today_str (reads u 0), amount = 50, reason = ''late''\<rparr>])"
proof -
  let ?d = "today_str (reads u 0)" and ?sn = "current_session (reads u 2)"
  let ?ok = "on_time (dt_time (reads u 1))"
  obtain ga dr where ed: "ensure_day_structure (group_att_of s g) ?d = (ga, dr)"
    by (cases "ensure_day_structure (group_att_of s g) ?d")
  obtain gs us where eu: "ensure_user_salary (group_sal_of s g) (from_id u) (display_name u) = (gs, us)"
    by (cases "ensure_user_salary (group_sal_of s g) (from_id u) (display_name u)")
  obtain ga' gs' r sv where di: "dispatch sl u ga dr gs us = (ga', gs', r, sv)"
    by (cases "dispatch sl u ga dr gs us") auto
  note hm = handle_message_Some [OF assms(1) ed eu di]
  have dr: "sess ?sn dr = marked_in s g ?d ?sn"
    using ensure_day_structure_facts(2) [OF ed]
    by (simp add: marked_in_def sess_def split: option.splits session.splits)
  have us: "deductions us = deductions_of s g (from_id u)" "history us = history_of s g (from_id u)"
    using ensure_user_salary_facts(2,3) [OF eu]
    by (simp_all add: deductions_of_def history_of_def salary_of_def)
  have mk: "mark u ?d (reads u 1) ?sn ga dr gs us = (ga', gs', r, sv)"
    using di assms(2) by (simp add: dispatch_def)
  have nm: "\<not> list_ex (\<lambda>e. user_id e = from_id u) (sess ?sn dr)"
    using assms(4) dr by simp
  have r: "r = (if ?ok then MarkedOnTime ?sn else MarkedLate ?sn)"
    and ga': "ga' = AList.update ?d (append_entry ?sn
        \<lparr>user_id = from_id u, e_username = display_name u, e_date = ?d,
          e_time = time_str (reads u 1), late = (\<not> ?ok), e_session = ?sn\<rparr> dr) ga"
    and gs': "map_of gs' (from_id u) = Some (if ?ok then us else penalised ?d ''late'' us)"
    using mk nm assms(3) ensure_user_salary_facts(1) [OF eu]
    by (auto simp: mark_def Let_def penalised_def update_conv' is_within_window_on_time
        split: if_splits)
  have c1: "?sn = (if hour (dt_time (reads u 2)) < 13 then Morning else Evening)"
    by (rule current_session_hour)
  have c2: "snd (handle_message sl s u) = (if ?ok then MarkedOnTime ?sn else MarkedLate ?sn)"
    by (simp add: hm r)
  have c3: "marked_in (fst (handle_message sl s u)) g ?d ?sn = marked_in s g ?d ?sn @
        [\<lparr>user_id = from_id u, e_username = display_name u, e_date = ?d,
          e_time = time_str (reads u 1), late = (\<not> ?ok), e_session = ?sn\<rparr>]"
    by (simp add: hm marked_in_stored ga' update_conv' sess_append_entry dr)
  have c4: "deductions_of (fst (handle_message sl s u)) g (from_id u) =
      deductions_of s g (from_id u) + (if ?ok then 0 else 50)"
    by (simp add: hm deductions_of_stored gs' penalised_def LATE_PENALTY_def us)
  have c5: "history_of (fst (handle_message sl s u)) g (from_id u) =
      history_of s g (from_id u) @
        (if ?ok then [] else [\<lparr>h_date = ?d, amount = 50, reason = ''late''\<rparr>])"
    by (simp add: hm history_of_stored gs' penalised_def LATE_PENALTY_def us)
  from c1 c2 c3 c4 c5 show ?thesis by blast
qed

text \<open>
  Two successive marks of one user in one group whose reads 0 give the same date and
  whose reads 2 give the same session: the second is answered \<open>AlreadyMarked\<close> and
  changes nothing, whatever its read 1.
\<close>

lemma mark_twice:
  assumes "salary_all named s" and "marks_unique s"
    and "chat u1 = Some g" and "chat u2 = Some g"
    and "msg_text u1 = ''1''" and "msg_text u2 = ''1''"
    and "from_id u2 = from_id u1"
    and "today_str (reads u2 0) = today_str (reads u1 0)"
    and "current_session (reads u2 2) = current_session (reads u1 2)"
  shows "handle_message sl (fst (handle_message sl s u1)) u2 =
           (fst (handle_message sl s u1), AlreadyMarked (current_session (reads u1 2))) \<and>
         length (filter (\<lambda>e. user_id e = from_id u1)
           (marked_in (fst (handle_message sl s u1)) g (today_str (reads u1 0))
              (current_session (reads u1 2)))) = 1 \<and>
         marks_unique (fst (handle_message sl s u1))"
proof -
  let ?s1 = "fst (handle_message sl s u1)"
  let ?d = "today_str (reads u1 0)" and ?sn = "current_session (reads u1 2)"
  have att: "map_of (attendance_data ?s1) g = Some (group_att_of ?s1 g)"
    and sal: "map_of (salary_data ?s1) g = Some (group_sal_of ?s1 g)"
    by (rule handle_message_registers [OF assms(3)])+
  obtain dr1 where dr1: "map_of (group_att_of ?s1 g) ?d = Some dr1"
    and ex: "list_ex (\<lambda>e. user_id e = from_id u1) (sess ?sn dr1)"
    using handle_message_marks [OF assms(3,5), of sl s] by blast
  have "from_id u1 \<in> dom (salary_of ?s1 g)"
    using handle_message_keeps_keys [OF assms(3), of s sl] by blast
  then obtain r1 where r1: "map_of (group_sal_of ?s1 g) (from_id u1) = Some r1"
    by (auto simp: salary_of_def)
  have "salary_all named ?s1"
    using closed_named assms(1) retract_closed_named by (rule handle_message_all)
  then have "named (from_id u1) r1"
    using map_of_SomeD [OF sal] map_of_SomeD [OF r1] by (rule salary_allD)
  then have nm: "username r1 \<noteq> []" by (simp add: named_def)
  have c1: "handle_message sl ?s1 u2 = (?s1, AlreadyMarked ?sn)"
    using handle_message_already_marked [OF assms(4,6) att, of dr1 "group_sal_of ?s1 g" r1 sl]
      dr1 sal r1 nm ex
    by (simp add: assms(7,8,9))
  have mu: "marks_unique ?s1"
    using assms(2) by (rule handle_message_unique)
  then have "days_unique (group_att_of ?s1 g)" by (rule group_att_of_unique)
  then have "day_unique dr1" using dr1 by (rule days_unique_lookup)
  then have "distinct (map user_id (sess ?sn dr1))" by (rule day_unique_sess)
  then have "length (filter (\<lambda>e. user_id e = from_id u1) (sess ?sn dr1)) = 1"
    using ex by (rule distinct_filter_one)
  then have c2: "length (filter (\<lambda>e. user_id e = from_id u1) (marked_in ?s1 g ?d ?sn)) = 1"
    by (simp add: marked_in_def dr1)
  from c1 c2 mu show ?thesis by blast
qed

section \<open>Marks whose clock reads straddle 13:00:00\<close>

lemmas scenario_defs = across_one_pm_def mark_across_one_pm_def mark_at_half_past_twelve_def
  entries_of_def at_time_def deductions_of_def history_of_def

text \<open>
  C7 (the code at a failing input). One mark into the empty state, handled while the
  clock passes 13:00:00: the time stamped on the entry (read 1) is 12:59:59, strictly
  before 13:00:00, so the claim puts the entry in the morning; the code files it in the
  evening list with \<open>session\<close> evening (read 2), and leaves the morning list empty.
\<close>

theorem mark_across_one_pm_filed_in_evening:
  "\<forall>sl. time_lt (dt_time (reads mark_across_one_pm 1)) (mk_time 13 0 0) \<and>
     current_session (reads mark_across_one_pm 1) = Morning \<and>
     snd (handle_message sl init_state mark_across_one_pm) = MarkedLate Evening \<and>
     marked_in (fst (handle_message sl init_state mark_across_one_pm)) 1 day1 Morning = [] \<and>
     marked_in (fst (handle_message sl init_state mark_across_one_pm)) 1 day1 Evening =
       [\<lparr>user_id = 42, e_username = ''vee'', e_date = day1, e_time = (12, 59, 59),
         late = True, e_session = Evening\<rparr>]"
  by (simp add: scenario_defs run_defs window_defs Let_def)

text \<open>
  C2 (the code at a failing input). A user marks at 12:30:00 and again in a handler run
  that passes 13:00:00. Both stamped times (12:30:00 and 12:59:59) fall in the morning
  session of the same day, so the claim answers the second mark \<open>AlreadyMarked\<close> with
  no mutation; the code answers \<open>MarkedLate Evening\<close>, files a second entry, and
  deducts 50 a second time.
\<close>

theorem second_mark_across_one_pm_creates_entry:
  "\<forall>sl. current_session (reads mark_at_half_past_twelve 1) = Morning \<and>
     current_session (reads mark_across_one_pm 1) = Morning \<and>
     today_str (reads mark_across_one_pm 0) = today_str (reads mark_at_half_past_twelve 0) \<and>
     snd (handle_message sl init_state mark_at_half_past_twelve) = MarkedLate Morning \<and>
     snd (handle_message sl (fst (handle_message sl init_state mark_at_half_past_twelve))
            mark_across_one_pm) = MarkedLate Evening \<and>
     map e_time (entries_of (run sl init_state [mark_at_half_past_twelve, mark_across_one_pm])
        1 day1 42) = [(12, 30, 0), (12, 59, 59)] \<and>
     deductions_of (run sl init_state [mark_at_half_past_twelve]) 1 42 = 50 \<and>
     deductions_of (run sl init_state [mark_at_half_past_twelve, mark_across_one_pm]) 1 42 = 100"
  by (simp add: scenario_defs run_defs window_defs Let_def)

section \<open>Retraction when every read falls on one day\<close>

lemma filter_now_one_day:
  assumes "one_day rd d"
  shows "filter_now is_missing_today rd k hs =
           filter (\<lambda>h. h_date h = d \<and> reason h = ''missing'') hs"
    and "filter_now (\<lambda>now h. \<not> is_missing_today now h) rd k hs =
           filter (\<lambda>h. \<not> (h_date h = d \<and> reason h = ''missing'')) hs"
  using assms
  by (induction hs arbitrary: k) (simp_all add: one_day_def is_missing_today_def)

lemma clear_missing_loop_one_day:
  assumes "one_day rd d"
  shows "clear_missing_loop rd k gs c =
     (map (\<lambda>(uid, r). (uid, retract_record d r)) gs, c @ retract_report d gs)"
proof (induction gs arbitrary: k c)
  case Nil
  then show ?case by (simp add: retract_report_def)
next
  case (Cons p gs)
  obtain uid r where p: "p = (uid, r)" by (cases p)
  show ?case
    by (simp add: p Cons.IH filter_now_one_day [OF assms] retract_record_def removed_events_def
        retract_report_def Let_def)
qed

lemma retract_record_history:
  "history (retract_record d r) =
     filter (\<lambda>h. \<not> (h_date h = d \<and> reason h = ''missing'')) (history r)"
proof (cases "removed_events d r = []")
  case True
  then have "\<forall>h \<in> set (history r). \<not> (h_date h = d \<and> reason h = ''missing'')"
    by (simp add: removed_events_def filter_empty_conv)
  then have "filter (\<lambda>h. \<not> (h_date h = d \<and> reason h = ''missing'')) (history r) = history r"
    by (simp add: filter_id_conv)
  with True show ?thesis by (simp add: retract_record_def)
next
  case False
  then show ?thesis by (simp add: retract_record_def)
qed

lemma retract_record_deductions:
  "deductions (retract_record d r) =
     (if removed_events d r = [] then deductions r
      else max 0 (deductions r - sum_list (map amount (removed_events d r))))"
  by (simp add: retract_record_def)

lemma retract_record_username: "username (retract_record d r) = username r"
  by (simp add: retract_record_def)

text \<open>
  When every read of the handler run falls on the date \<open>d\<close>, the retraction is exact and
  scoped: every record is replaced by its retraction for \<open>d\<close>, in place; the history
  keeps exactly the events that are not (\<open>d\<close>, "missing"), so "late" events stay; the
  deductions of a record with a match go down by the sum removed, floored at 0; and the
  report lists the records with a match, each with the sum removed from it.
\<close>

lemma retract_exact_on_one_day:
  assumes "from_id u \<in> set ADMIN_IDS" and "one_day (reads u) d"
  shows "clear_missing u ga gs =
     (ga, map (\<lambda>(uid, r). (uid, retract_record d r)) gs,
      (if retract_report d gs = [] then NothingToClear
       else ClearedMissing (retract_report d gs) (sum_list (map snd (retract_report d gs)))),
      retract_report d gs \<noteq> []) \<and>
    (\<forall>r. history (retract_record d r) =
             filter (\<lambda>h. \<not> (h_date h = d \<and> reason h = ''missing'')) (history r) \<and>
           username (retract_record d r) = username r \<and>
           deductions (retract_record d r) =
             (if removed_events d r = [] then deductions r
              else max 0 (deductions r - sum_list (map amount (removed_events d r)))) \<and>
           (\<forall>h \<in> set (history r). reason h = ''late'' \<longrightarrow> h \<in> set (history (retract_record d r))))"
  using assms(1)
  by (simp add: clear_missing_def clear_missing_loop_one_day [OF assms(2)] retract_record_history
      retract_record_username retract_record_deductions)

section \<open>The cached total and the history\<close>

lemma sum_list_filter_split:
  "sum_list (map f xs) = sum_list (map f (filter P xs)) + sum_list (map f (filter (\<lambda>x. \<not> P x) xs))"
  for f :: "'a \<Rightarrow> int"
  by (induction xs) auto

lemma sum_list_nonneg_all: "list_all (\<lambda>h. 0 \<le> f h) xs \<Longrightarrow> 0 \<le> sum_list (map f xs)"
  for f :: "'a \<Rightarrow> int"
  by (induction xs) auto

lemma ledger_ok_retract:
  assumes "ledger_ok uid r"
  shows "ledger_ok uid (r\<lparr>deductions := max 0 (deductions r -
            sum_list (map amount (filter (\<lambda>h. h_date h = d \<and> reason h = ''missing'') (history r)))),
          history := filter (\<lambda>h. \<not> (h_date h = d \<and> reason h = ''missing'')) (history r)\<rparr>)"
proof -
  let ?Q = "\<lambda>h. h_date h = d \<and> reason h = ''missing''"
  let ?rem = "filter ?Q (history r)"
  let ?keep = "filter (\<lambda>h. \<not> ?Q h) (history r)"
  have keep: "list_all (\<lambda>h. 0 \<le> amount h) ?keep"
    using assms by (auto simp: ledger_ok_def list_all_iff)
  have "deductions r - sum_list (map amount ?rem) = sum_list (map amount ?keep)"
    using assms sum_list_filter_split [of amount "history r" ?Q]
    by (simp add: ledger_ok_def)
  moreover have "0 \<le> sum_list (map amount ?keep)"
    using keep by (rule sum_list_nonneg_all)
  ultimately show ?thesis
    using keep by (simp add: ledger_ok_def)
qed

lemma closed_ledger_ok: "closed_pred ledger_ok"
  unfolding closed_pred_def
  by (auto simp: ledger_ok_def penalised_def LATE_PENALTY_def)

lemma retract_closed_ledger_ok:
  assumes "one_day rd d"
  shows "retract_closed ledger_ok rd"
  unfolding retract_closed_def filter_now_one_day [OF assms]
  using ledger_ok_retract by blast

text \<open>
  From a ledger in which every record's \<open>deductions\<close> is the sum of the amounts of its
  history and no amount is negative (the empty ledger is one), every sequence of messages
  each handled within one day keeps it so.
\<close>

lemma ledger_kept_on_one_day_runs:
  assumes "salary_all ledger_ok s" and "\<forall>u \<in> set us. \<exists>d. one_day (reads u) d"
    and "(g, gs) \<in> set (salary_data (run sl s us))" and "(uid, r) \<in> set gs"
  shows "deductions r = sum_list (map amount (history r))"
proof -
  have "\<forall>u \<in> set us. retract_closed ledger_ok (reads u)"
    using assms(2) retract_closed_ledger_ok by blast
  with closed_ledger_ok assms(1) have "salary_all ledger_ok (run sl s us)"
    by (rule run_all)
  then have "ledger_ok uid r" using assms(3,4) by (rule salary_allD)
  then show ?thesis by (simp add: ledger_ok_def)
qed

section \<open>Retraction while the clock passes midnight\<close>

lemmas midnight_defs = across_midnight_def retract_across_midnight_def scenario_midnight_def
  one_missing_event_def at_time_def deductions_of_def history_of_def

text \<open>
  C1 (the code at a failing input). A user is swept as missing (deductions 50, one
  "missing" event of \<open>day1\<close>), and the admin's "7" is handled while the clock passes
  midnight. Line 272 still reads \<open>day1\<close> and finds the event, so 50 is subtracted and
  reported; line 277 reads \<open>day2\<close> and removes nothing. The record is left with
  deductions 0 and a history whose amounts sum to 50.
\<close>

theorem retraction_across_midnight_breaks_sum:
  "\<forall>sl. salary_of (run sl init_state (butlast scenario_midnight)) 1 43 =
       Some \<lparr>username = ''bee'', deductions = 50,
             history = [\<lparr>h_date = day1, amount = 50, reason = ''missing''\<rparr>]\<rparr> \<and>
     salary_of (run sl init_state scenario_midnight) 1 43 =
       Some \<lparr>username = ''bee'', deductions = 0,
             history = [\<lparr>h_date = day1, amount = 50, reason = ''missing''\<rparr>]\<rparr> \<and>
     deductions_of (run sl init_state scenario_midnight) 1 43 \<noteq>
       sum_list (map amount (history_of (run sl init_state scenario_midnight) 1 43))"
  by (simp add: midnight_defs run_defs window_defs Let_def)

text \<open>
  C3 (the code at a failing input). The loop of lines 269-278 on a ledger with one record
  holding one "missing" event of \<open>day1\<close>, run while the clock passes midnight: the
  report says 50 was cleared and the deductions go from 50 to 0, but no event is removed
  from the history.
\<close>

theorem retraction_across_midnight_removes_nothing:
  "from_id retract_across_midnight \<in> set ADMIN_IDS \<and>
   today_str (reads retract_across_midnight 0) = day1 \<and>
   clear_missing retract_across_midnight [] one_missing_event =
     ([],
      [(43, \<lparr>username = ''bee'', deductions = 0,
             history = [\<lparr>h_date = day1, amount = 50, reason = ''missing''\<rparr>]\<rparr>)],
      ClearedMissing [(''bee'', 50)] 50, True)"
  by (simp add: midnight_defs run_defs Let_def)

section \<open>The missing sweep\<close>

lemma ensure_user_salary_nonempty: "fst (ensure_user_salary gs uid n) \<noteq> []"
  by (auto simp: ensure_user_salary_def Let_def split: option.splits)

lemma known_members_ledger: "gs \<noteq> [] \<Longrightarrow> known_members sl gs ga = members_of gs"
  by (simp add: known_members_def members_of_def)



lemma distinct_ensure_user_salary:
  "distinct (map fst gs) \<Longrightarrow> distinct (map fst (fst (ensure_user_salary gs uid n)))"
  by (auto simp: ensure_user_salary_def Let_def distinct_update split: option.splits)

lemma distinct_missing_of:
  assumes "distinct (map fst gs)"
  shows "distinct (map fst (missing_of (members_of gs) marked))"
proof -
  have "map fst (members_of gs) = map fst gs"
    by (induction gs) (auto simp: members_of_def)
  with assms have "distinct (map fst (members_of gs))" by simp
  then show ?thesis
    unfolding missing_of_def by (rule distinct_map_filter)
qed

lemma sweep_outcome:
  assumes "chat u = Some g" and "msg_text u = ''6''" and "from_id u \<in> set ADMIN_IDS"
  shows "handle_message sl s u =
     (let L = ledger_at_dispatch s u g;
          sn = current_session (reads u 2);
          M = missing_of (members_of L) (marked_in s g (today_str (reads u 0)) sn);
          ga = fst (ensure_day_structure (group_att_of s g) (today_str (reads u 0)))
      in if M = [] then (stored s g ga L False, EveryoneMarked sn)
         else (stored s g ga (deduct_missing (reads u) 3 M L) True, Missing sn M))"
proof -
  let ?d = "today_str (reads u 0)" and ?sn = "current_session (reads u 2)"
  obtain ga dr where ed: "ensure_day_structure (group_att_of s g) ?d = (ga, dr)"
    by (cases "ensure_day_structure (group_att_of s g) ?d")
  obtain gs us where eu: "ensure_user_salary (group_sal_of s g) (from_id u) (display_name u) = (gs, us)"
    by (cases "ensure_user_salary (group_sal_of s g) (from_id u) (display_name u)")
  have L: "ledger_at_dispatch s u g = gs" by (simp add: ledger_at_dispatch_def eu)
  have ne: "gs \<noteq> []" using ensure_user_salary_nonempty [of "group_sal_of s g" "from_id u" "display_name u"]
    by (simp add: eu)
  then have mne: "members_of gs \<noteq> []" by (simp add: members_of_def)
  have dr: "sess ?sn dr = marked_in s g ?d ?sn"
    using ensure_day_structure_facts(2) [OF ed]
    by (simp add: marked_in_def sess_def split: option.splits session.splits)
  let ?M = "missing_of (members_of gs) (marked_in s g ?d ?sn)"
  have di: "dispatch sl u ga dr gs us =
      (if ?M = [] then (ga, gs, EveryoneMarked ?sn, False)
       else (ga, deduct_missing (reads u) 3 ?M gs, Missing ?sn ?M, True))"
    using assms(2,3) ne mne
    by (simp add: dispatch_def find_missing_def known_members_ledger dr Let_def)
  show ?thesis
  proof (cases "?M = []")
    case True
    with di have "dispatch sl u ga dr gs us = (ga, gs, EveryoneMarked ?sn, False)" by simp
    from handle_message_Some [OF assms(1) ed eu this] True show ?thesis
      by (simp add: L ed Let_def)
  next
    case False
    with di have "dispatch sl u ga dr gs us =
        (ga, deduct_missing (reads u) 3 ?M gs, Missing ?sn ?M, True)" by simp
    from handle_message_Some [OF assms(1) ed eu this] False show ?thesis
      by (simp add: L ed Let_def)
  qed
qed


lemma scenario_abc_state:
  "attendance_data (run sl init_state scenario_abc) =
     [(1, [(day1, \<lparr>morning = [\<lparr>user_id = 41, e_username = ''aye'', e_date = day1,
                                e_time = (10, 5, 0), late = False, e_session = Morning\<rparr>],
                    evening = []\<rparr>)])]"
  "salary_data (run sl init_state scenario_abc) =
     [(1, [(41, \<lparr>username = ''aye'', deductions = 0, history = []\<rparr>),
           (42, \<lparr>username = ''bee'', deductions = 0, history = []\<rparr>),
           (43, \<lparr>username = ''cee'', deductions = 0, history = []\<rparr>)])]"
  by (simp_all add: scenario_abc_def run_defs window_defs Let_def)

lemma sweep1_facts:
  "chat sweep1 = Some 1" "msg_text sweep1 = ''6''" "from_id sweep1 \<in> set ADMIN_IDS"
  "from_id sweep1 = 7958117532" "display_name sweep1 = ''boss''"
  "today_str (reads sweep1 i) = day1" "current_session (reads sweep1 i) = Morning"
  by (simp_all add: sweep1_def msg_def ADMIN_IDS_def today_str_def current_session_def
      window_defs display_name_def str_or_def)

lemma scenario_abc_obs:
  "group_sal_of (run sl init_state scenario_abc) 1 =
     [(41, \<lparr>username = ''aye'', deductions = 0, history = []\<rparr>),
      (42, \<lparr>username = ''bee'', deductions = 0, history = []\<rparr>),
      (43, \<lparr>username = ''cee'', deductions = 0, history = []\<rparr>)]"
  "map user_id (marked_in (run sl init_state scenario_abc) 1 day1 Morning) = [41]"
  by (simp_all add: group_sal_of_def marked_in_def group_att_of_def scenario_abc_state sess_def)


section \<open>A second sweep penalises again\<close>

lemma ensure_user_salary_noop:
  "map_of gs uid = Some r \<Longrightarrow> username r = n \<Longrightarrow> ensure_user_salary gs uid n = (gs, r)"
  by (simp add: ensure_user_salary_def)

lemma deduct_missing_effect:
  assumes "distinct (map fst ms)"
    and "\<forall>(uid, n) \<in> set ms. \<exists>r. map_of gs uid = Some r \<and> username r = n"
  shows "(k \<notin> fst ` set ms \<longrightarrow> map_of (deduct_missing rd i ms gs) k = map_of gs k) \<and>
         (k \<in> fst ` set ms \<longrightarrow>
            (\<exists>j. map_of (deduct_missing rd i ms gs) k =
                   map_option (penalised (today_str (rd j)) ''missing'') (map_of gs k)))"
  using assms
proof (induction ms arbitrary: gs i)
  case Nil
  then show ?case by simp
next
  case (Cons m ms)
  obtain uid n where m: "m = (uid, n)" by (cases m)
  from Cons.prems(2) m obtain r where r: "map_of gs uid = Some r" "username r = n"
    by auto
  let ?gs = "AList.update uid (penalised (today_str (rd i)) ''missing'' r) gs"
  have step: "deduct_missing rd i (m # ms) gs = deduct_missing rd (Suc i) ms ?gs"
    by (simp add: m ensure_user_salary_noop [OF r] penalised_def)
  have notin: "uid \<notin> fst ` set ms" and dist: "distinct (map fst ms)"
    using Cons.prems(1) m by auto
  have pre: "\<forall>(uid', n') \<in> set ms. \<exists>r'. map_of ?gs uid' = Some r' \<and> username r' = n'"
  proof (clarify)
    fix uid' n' assume in_ms: "(uid', n') \<in> set ms"
    then have "uid' \<noteq> uid" using notin by force
    moreover from in_ms Cons.prems(2) obtain r' where "map_of gs uid' = Some r'" "username r' = n'"
      by fastforce
    ultimately show "\<exists>r'. map_of ?gs uid' = Some r' \<and> username r' = n'"
      by (simp add: update_conv')
  qed
  note ih = Cons.IH [OF dist pre, of "Suc i"]
  show ?case
  proof (cases "k = uid")
    case True
    with notin ih have "map_of (deduct_missing rd (Suc i) ms ?gs) k = map_of ?gs k" by simp
    then have "map_of (deduct_missing rd i (m # ms) gs) k =
        map_option (penalised (today_str (rd i)) ''missing'') (map_of gs k)"
      using True r unfolding step by (simp add: update_conv')
    moreover have "k \<in> fst ` set (m # ms)" using True m by simp
    ultimately show ?thesis by blast
  next
    case False
    then have same: "map_of ?gs k = map_of gs k" by (simp add: update_conv')
    have kin: "k \<in> fst ` set (m # ms) \<longleftrightarrow> k \<in> fst ` set ms"
      using False m by auto
    show ?thesis unfolding step kin using ih same by simp
  qed
qed

lemma distinct_deduct_missing:
  "distinct (map fst gs) \<Longrightarrow> distinct (map fst (deduct_missing rd i ms gs))"
proof (induction ms arbitrary: gs i)
  case Nil
  then show ?case by simp
next
  case (Cons m ms)
  obtain uid n where m: "m = (uid, n)" by (cases m)
  obtain gs1 r where e: "ensure_user_salary gs uid n = (gs1, r)" by (cases "ensure_user_salary gs uid n")
  have "distinct (map fst gs1)"
    using distinct_ensure_user_salary [OF Cons.prems, of uid n] by (simp add: e)
  then have "distinct (map fst (AList.update uid (penalised (today_str (rd i)) ''missing'' r) gs1))"
    by (rule distinct_update)
  then show ?case
    using Cons.IH by (simp add: m e penalised_def)
qed

lemma marked_in_ensure_day:
  "(case map_of (fst (ensure_day_structure ga d)) d' of None \<Rightarrow> [] | Some dr \<Rightarrow> sess sn dr) =
   (case map_of ga d' of None \<Rightarrow> [] | Some dr \<Rightarrow> sess sn dr)"
  by (cases sn) (auto simp: ensure_day_structure_def Let_def update_conv' sess_def split: option.splits)

text \<open>What one sweep does to a known member who is not an admin and has not marked.\<close>

lemma sweep_effect:
  assumes "chat u = Some g" and "msg_text u = ''6''" and "from_id u \<in> set ADMIN_IDS"
    and "distinct (map fst (group_sal_of s g))"
    and "salary_of s g uid = Some r" and "uid \<notin> set ADMIN_IDS"
    and "uid \<notin> user_id ` set (marked_in s g (today_str (reads u 0)) (current_session (reads u 2)))"
  shows "(\<exists>j. salary_of (fst (handle_message sl s u)) g uid =
            Some (penalised (today_str (reads u j)) ''missing'' r)) \<and>
         distinct (map fst (group_sal_of (fst (handle_message sl s u)) g)) \<and>
         marked_in (fst (handle_message sl s u)) g d' sn' = marked_in s g d' sn' \<and>
         (\<exists>M. snd (handle_message sl s u) = Missing (current_session (reads u 2)) M \<and>
              (uid, username r) \<in> set M)"
proof -
  let ?L = "ledger_at_dispatch s u g"
  let ?sn = "current_session (reads u 2)"
  let ?M = "missing_of (members_of ?L) (marked_in s g (today_str (reads u 0)) ?sn)"
  obtain us where eu: "ensure_user_salary (group_sal_of s g) (from_id u) (display_name u) = (?L, us)"
    by (cases "ensure_user_salary (group_sal_of s g) (from_id u) (display_name u)")
      (simp add: ledger_at_dispatch_def)
  have ne: "uid \<noteq> from_id u" using assms(3,6) by auto
  have Lr: "map_of ?L uid = Some r"
    using ensure_user_salary_facts(1) [OF eu] assms(5) ne by (simp add: salary_of_def)
  have dL: "distinct (map fst ?L)"
    using distinct_ensure_user_salary [OF assms(4)] by (simp add: ledger_at_dispatch_def)
  have inL: "(uid, r) \<in> set ?L" using Lr by (rule map_of_SomeD)
  then have "(uid, username r) \<in> set (members_of ?L)"
    by (force simp: members_of_def)
  then have inM: "(uid, username r) \<in> set ?M"
    using assms(6,7) by (simp add: missing_of_def)
  then have Mne: "?M \<noteq> []" by auto
  have dM: "distinct (map fst ?M)" using dL by (rule distinct_missing_of)
  have pre: "\<forall>(uid', n') \<in> set ?M. \<exists>r'. map_of ?L uid' = Some r' \<and> username r' = n'"
  proof (clarify)
    fix uid' n' assume "(uid', n') \<in> set ?M"
    then have "(uid', n') \<in> set (members_of ?L)" by (simp add: missing_of_def)
    then obtain r' where "(uid', r') \<in> set ?L" "n' = username r'"
      by (auto simp: members_of_def)
    with dL show "\<exists>r'. map_of ?L uid' = Some r' \<and> username r' = n'"
      by (auto intro: map_of_is_SomeI)
  qed
  have hm: "handle_message sl s u =
      (stored s g (fst (ensure_day_structure (group_att_of s g) (today_str (reads u 0))))
         (deduct_missing (reads u) 3 ?M ?L) True, Missing ?sn ?M)"
    using Mne by (simp add: sweep_outcome [OF assms(1,2,3)] Let_def)
  have "uid \<in> fst ` set ?M" using inM by force
  with deduct_missing_effect [OF dM pre, of uid "reads u" 3] Lr
  obtain j where "map_of (deduct_missing (reads u) 3 ?M ?L) uid =
      Some (penalised (today_str (reads u j)) ''missing'' r)"
    by auto
  then have c1: "\<exists>j. salary_of (fst (handle_message sl s u)) g uid =
            Some (penalised (today_str (reads u j)) ''missing'' r)"
    by (auto simp: hm salary_of_stored)
  have c2: "distinct (map fst (group_sal_of (fst (handle_message sl s u)) g))"
    using dL by (simp add: hm group_sal_of_stored distinct_deduct_missing)
  have c3: "marked_in (fst (handle_message sl s u)) g d' sn' = marked_in s g d' sn'"
    by (simp add: hm marked_in_stored marked_in_ensure_day) (simp add: marked_in_def)
  have c4: "\<exists>M. snd (handle_message sl s u) = Missing ?sn M \<and> (uid, username r) \<in> set M"
    using inM by (simp add: hm)
  from c1 c2 c3 c4 show ?thesis by blast
qed

text \<open>
  C6. The sweep is not idempotent. In any state whose salary ledger for the group has
  distinct keys, take a known member who is not an admin and is not in today's list of
  the current session, and let an admin send "6" twice, both times on that day and in
  that session. Both replies list the member as missing, and after the second sweep the
  member's history has gained two "missing" events of amount 50 (dated by clock reads of
  the first and of the second sweep) and the deductions have gone up by 100.
\<close>

theorem sweep_twice_doubles:
  assumes "chat u1 = Some g" and "msg_text u1 = ''6''" and "from_id u1 \<in> set ADMIN_IDS"
    and "chat u2 = Some g" and "msg_text u2 = ''6''" and "from_id u2 \<in> set ADMIN_IDS"
    and "today_str (reads u2 0) = today_str (reads u1 0)"
    and "current_session (reads u2 2) = current_session (reads u1 2)"
    and "distinct (map fst (group_sal_of s g))"
    and "salary_of s g uid = Some r" and "uid \<notin> set ADMIN_IDS"
    and "uid \<notin> user_id ` set (marked_in s g (today_str (reads u1 0)) (current_session (reads u1 2)))"
  shows "\<exists>i j M1 M2.
     snd (handle_message sl s u1) = Missing (current_session (reads u1 2)) M1 \<and>
     (uid, username r) \<in> set M1 \<and>
     snd (handle_message sl (fst (handle_message sl s u1)) u2) =
       Missing (current_session (reads u1 2)) M2 \<and>
     (uid, username r) \<in> set M2 \<and>
     deductions_of (fst (handle_message sl s u1)) g uid = deductions r + 50 \<and>
     history_of (fst (handle_message sl s u1)) g uid =
       history r @ [\<lparr>h_date = today_str (reads u1 i), amount = 50, reason = ''missing''\<rparr>] \<and>
     deductions_of (fst (handle_message sl (fst (handle_message sl s u1)) u2)) g uid =
       deductions r + 100 \<and>
     history_of (fst (handle_message sl (fst (handle_message sl s u1)) u2)) g uid =
       history r @ [\<lparr>h_date = today_str (reads u1 i), amount = 50, reason = ''missing''\<rparr>,
                    \<lparr>h_date = today_str (reads u2 j), amount = 50, reason = ''missing''\<rparr>]"
proof -
  let ?s1 = "fst (handle_message sl s u1)"
  let ?s2 = "fst (handle_message sl ?s1 u2)"
  let ?d = "today_str (reads u1 0)" and ?sn = "current_session (reads u1 2)"
  from sweep_effect [OF assms(1,2,3,9,10,11,12), of sl ?d ?sn]
  obtain i M1 where s1: "salary_of ?s1 g uid = Some (penalised (today_str (reads u1 i)) ''missing'' r)"
    and d1: "distinct (map fst (group_sal_of ?s1 g))"
    and m1: "marked_in ?s1 g ?d ?sn = marked_in s g ?d ?sn"
    and r1: "snd (handle_message sl s u1) = Missing ?sn M1" "(uid, username r) \<in> set M1"
    by blast
  let ?r1 = "penalised (today_str (reads u1 i)) ''missing'' r"
  have un: "uid \<notin> user_id ` set (marked_in ?s1 g (today_str (reads u2 0)) (current_session (reads u2 2)))"
    using assms(12) by (simp add: assms(7,8) m1)
  from sweep_effect [OF assms(4,5,6) d1 s1 assms(11) un, of sl ?d ?sn]
  obtain j M2 where s2: "salary_of ?s2 g uid = Some (penalised (today_str (reads u2 j)) ''missing'' ?r1)"
    and r2: "snd (handle_message sl ?s1 u2) = Missing (current_session (reads u2 2)) M2"
      "(uid, username ?r1) \<in> set M2"
    by blast
  have "deductions_of ?s1 g uid = deductions r + 50"
    and "history_of ?s1 g uid =
       history r @ [\<lparr>h_date = today_str (reads u1 i), amount = 50, reason = ''missing''\<rparr>]"
    and "deductions_of ?s2 g uid = deductions r + 100"
    and "history_of ?s2 g uid =
       history r @ [\<lparr>h_date = today_str (reads u1 i), amount = 50, reason = ''missing''\<rparr>,
                    \<lparr>h_date = today_str (reads u2 j), amount = 50, reason = ''missing''\<rparr>]"
    by (simp_all add: deductions_of_def history_of_def s1 s2 penalised_def LATE_PENALTY_def)
  moreover have "(uid, username r) \<in> set M2" using r2(2) by (simp add: penalised_def)
  moreover have "snd (handle_message sl ?s1 u2) = Missing ?sn M2" using r2(1) by (simp add: assms(8))
  ultimately show ?thesis using r1 by blast
qed

lemma scenario_abc_full:
  "run sl init_state scenario_abc =
     \<lparr>attendance_data =
        [(1, [(day1, \<lparr>morning = [\<lparr>user_id = 41, e_username = ''aye'', e_date = day1,
                                   e_time = (10, 5, 0), late = False, e_session = Morning\<rparr>],
                       evening = []\<rparr>)])],
      salary_data =
        [(1, [(41, \<lparr>username = ''aye'', deductions = 0, history = []\<rparr>),
              (42, \<lparr>username = ''bee'', deductions = 0, history = []\<rparr>),
              (43, \<lparr>username = ''cee'', deductions = 0, history = []\<rparr>)])],
      attendance_file =
        [(1, [(day1, \<lparr>morning = [\<lparr>user_id = 41, e_username = ''aye'', e_date = day1,
                                   e_time = (10, 5, 0), late = False, e_session = Morning\<rparr>],
                       evening = []\<rparr>)])],
      salary_file = [(1, [(41, \<lparr>username = ''aye'', deductions = 0, history = []\<rparr>)])]\<rparr>"
  by (simp add: scenario_abc_def run_defs window_defs Let_def)

lemma sweep2_facts:
  "chat sweep2 = Some 1" "msg_text sweep2 = ''6''" "from_id sweep2 \<in> set ADMIN_IDS"
  "today_str (reads sweep2 i) = day1" "current_session (reads sweep2 i) = Morning"
  by (simp_all add: sweep2_def msg_def ADMIN_IDS_def today_str_def current_session_def
      window_defs)

lemma double_sweep_replies:
  "snd (handle_message sl (run sl init_state scenario_abc) sweep1) =
     Missing Morning [(42, ''bee''), (43, ''cee'')]"
  "snd (handle_message sl (fst (handle_message sl (run sl init_state scenario_abc) sweep1)) sweep2) =
     Missing Morning [(42, ''bee''), (43, ''cee'')]"
  "salary_data (fst (handle_message sl (fst (handle_message sl (run sl init_state scenario_abc)
       sweep1)) sweep2)) =
     [(1, [(41, \<lparr>username = ''aye'', deductions = 0, history = []\<rparr>),
           (42, \<lparr>username = ''bee'', deductions = 100,
                 history = [\<lparr>h_date = day1, amount = 50, reason = ''missing''\<rparr>,
                            \<lparr>h_date = day1, amount = 50, reason = ''missing''\<rparr>]\<rparr>),
           (43, \<lparr>username = ''cee'', deductions = 100,
                 history = [\<lparr>h_date = day1, amount = 50, reason = ''missing''\<rparr>,
                            \<lparr>h_date = day1, amount = 50, reason = ''missing''\<rparr>]\<rparr>),
           (7958117532, \<lparr>username = ''boss'', deductions = 0, history = []\<rparr>)])]"
  unfolding scenario_abc_full
  by (simp_all add: sweep1_def sweep2_def run_defs window_defs Let_def)

theorem sweep_twice_doubles_witness:
  "\<forall>sl. chat sweep1 = Some 1 \<and> msg_text sweep1 = ''6'' \<and> from_id sweep1 \<in> set ADMIN_IDS \<and>
     chat sweep2 = Some 1 \<and> msg_text sweep2 = ''6'' \<and> from_id sweep2 \<in> set ADMIN_IDS \<and>
     today_str (reads sweep2 0) = today_str (reads sweep1 0) \<and>
     current_session (reads sweep2 2) = current_session (reads sweep1 2) \<and>
     distinct (map fst (group_sal_of (run sl init_state scenario_abc) 1)) \<and>
     salary_of (run sl init_state scenario_abc) 1 42 =
       Some \<lparr>username = ''bee'', deductions = 0, history = []\<rparr> \<and>
     42 \<notin> set ADMIN_IDS \<and>
     42 \<notin> user_id ` set (marked_in (run sl init_state scenario_abc) 1 day1 Morning) \<and>
     snd (handle_message sl (run sl init_state scenario_abc) sweep1) =
       Missing Morning [(42, ''bee''), (43, ''cee'')] \<and>
     snd (handle_message sl (fst (handle_message sl (run sl init_state scenario_abc) sweep1))
            sweep2) = Missing Morning [(42, ''bee''), (43, ''cee'')] \<and>
     deductions_of (fst (handle_message sl (fst (handle_message sl
        (run sl init_state scenario_abc) sweep1)) sweep2)) 1 42 = 100 \<and>
     history_of (fst (handle_message sl (fst (handle_message sl
        (run sl init_state scenario_abc) sweep1)) sweep2)) 1 42 =
       [\<lparr>h_date = day1, amount = 50, reason = ''missing''\<rparr>,
        \<lparr>h_date = day1, amount = 50, reason = ''missing''\<rparr>]"
proof
  fix sl
  let ?S = "run sl init_state scenario_abc"
  let ?r = "\<lparr>username = ''bee'', deductions = 0, history = []\<rparr>"
  have same: "today_str (reads sweep2 0) = today_str (reads sweep1 0)"
    "current_session (reads sweep2 2) = current_session (reads sweep1 2)"
    by (simp_all add: sweep1_facts sweep2_facts)
  have dk: "distinct (map fst (group_sal_of ?S 1))"
    by (simp add: scenario_abc_obs)
  have rec: "salary_of ?S 1 42 = Some ?r"
    by (simp add: salary_of_def scenario_abc_obs)
  have na: "(42::int) \<notin> set ADMIN_IDS" by (simp add: ADMIN_IDS_def)
  have ad: "(7958117532::int) \<in> set ADMIN_IDS" by (simp add: ADMIN_IDS_def)
  have m: "user_id ` set (marked_in ?S 1 day1 Morning) = {41}"
    using scenario_abc_obs(2) [of sl] by (metis list.set_map list.simps(15) empty_set)
  have um: "42 \<notin> user_id ` set (marked_in ?S 1 (today_str (reads sweep1 0))
      (current_session (reads sweep1 2)))"
    by (simp add: sweep1_facts m)
  have fin: "deductions_of (fst (handle_message sl (fst (handle_message sl ?S sweep1)) sweep2)) 1 42 = 100"
    "history_of (fst (handle_message sl (fst (handle_message sl ?S sweep1)) sweep2)) 1 42 =
       [\<lparr>h_date = day1, amount = 50, reason = ''missing''\<rparr>,
        \<lparr>h_date = day1, amount = 50, reason = ''missing''\<rparr>]"
    by (simp_all add: deductions_of_def history_of_def salary_of_def group_sal_of_def
        double_sweep_replies(3))
  show "chat sweep1 = Some 1 \<and> msg_text sweep1 = ''6'' \<and> from_id sweep1 \<in> set ADMIN_IDS \<and>
     chat sweep2 = Some 1 \<and> msg_text sweep2 = ''6'' \<and> from_id sweep2 \<in> set ADMIN_IDS \<and>
     today_str (reads sweep2 0) = today_str (reads sweep1 0) \<and>
     current_session (reads sweep2 2) = current_session (reads sweep1 2) \<and>
     distinct (map fst (group_sal_of ?S 1)) \<and>
     salary_of ?S 1 42 = Some ?r \<and>
     42 \<notin> set ADMIN_IDS \<and>
     42 \<notin> user_id ` set (marked_in ?S 1 day1 Morning) \<and>
     snd (handle_message sl ?S sweep1) = Missing Morning [(42, ''bee''), (43, ''cee'')] \<and>
     snd (handle_message sl (fst (handle_message sl ?S sweep1)) sweep2) =
       Missing Morning [(42, ''bee''), (43, ''cee'')] \<and>
     deductions_of (fst (handle_message sl (fst (handle_message sl ?S sweep1)) sweep2)) 1 42 = 100 \<and>
     history_of (fst (handle_message sl (fst (handle_message sl ?S sweep1)) sweep2)) 1 42 =
       [\<lparr>h_date = day1, amount = 50, reason = ''missing''\<rparr>,
        \<lparr>h_date = day1, amount = 50, reason = ''missing''\<rparr>]"
    using sweep_twice_doubles [OF sweep1_facts(1,2,3) sweep2_facts(1,2,3) same dk rec na um, of sl]
    by (simp add: sweep1_facts sweep2_facts dk rec na ad m double_sweep_replies fin)
qed

section \<open>Every message registers its sender\<close>

lemma keys_distinct_init: "keys_distinct init_state"
  by (simp add: keys_distinct_def group_sal_of_def init_state_def)

lemma map_fst_map_values: "map fst (map (\<lambda>(uid, r). (uid, f r)) gs) = map fst gs"
  by (induction gs) auto

lemma dispatch_distinct:
  assumes "dispatch sl u ga dr gs us = (ga', gs', r, sv)" and "distinct (map fst gs)"
  shows "distinct (map fst gs')"
  using assms(1)
proof (cases rule: dispatch_cases)
  case 1
  then have "gs' = gs \<or> (\<exists>v. gs' = AList.update (from_id u) v gs)"
    by (auto simp: mark_def Let_def split: if_splits)
  then show ?thesis using assms(2) by (auto simp: distinct_update)
next
  case 2
  then show ?thesis using assms(2) by auto
next
  case 3
  then have "gs' = gs \<or> gs' = map (\<lambda>(uid, r). (uid, r\<lparr>deductions := 0, history := []\<rparr>)) gs"
    by (auto simp: clear_deductions_def split: if_splits)
  then show ?thesis
    using assms(2) map_fst_map_values [of "\<lambda>r. r\<lparr>deductions := 0, history := []\<rparr>" gs]
    by (elim disjE) (simp_all del: map_map)
next
  case 4
  then have "gs' = gs \<or> (\<exists>ms. gs' = deduct_missing (reads u) 3 ms gs)"
    by (auto simp: find_missing_def Let_def split: if_splits)
  then show ?thesis using assms(2) by (auto simp: distinct_deduct_missing)
next
  case 5
  then have "gs' = gs \<or> gs' = fst (clear_missing_loop (reads u) 3 gs [])"
    by (auto simp: clear_missing_def split: if_splits prod.splits)
  then show ?thesis using assms(2) by (auto simp: keys_clear_missing_loop)
next
  case 6
  then have "gs' = gs" by (auto simp: clear_attendance_def split: if_splits)
  then show ?thesis using assms(2) by simp
qed

lemma handle_message_keys_distinct:
  assumes "keys_distinct s"
  shows "keys_distinct (fst (handle_message sl s u))"
proof (cases "chat u")
  case None
  then show ?thesis using assms by (simp add: handle_message_def)
next
  case (Some g)
  let ?d = "today_str (reads u 0)"
  obtain ga dr where ed: "ensure_day_structure (group_att_of s g) ?d = (ga, dr)"
    by (cases "ensure_day_structure (group_att_of s g) ?d")
  obtain gs us where eu: "ensure_user_salary (group_sal_of s g) (from_id u) (display_name u) = (gs, us)"
    by (cases "ensure_user_salary (group_sal_of s g) (from_id u) (display_name u)")
  obtain ga' gs' r sv where di: "dispatch sl u ga dr gs us = (ga', gs', r, sv)"
    by (cases "dispatch sl u ga dr gs us") auto
  note hm = handle_message_Some [OF Some ed eu di]
  have "distinct (map fst (group_sal_of s g))" using assms by (simp add: keys_distinct_def)
  then have "distinct (map fst gs)"
    using distinct_ensure_user_salary [of "group_sal_of s g" "from_id u" "display_name u"]
    by (simp add: eu)
  with di have "distinct (map fst gs')" by (rule dispatch_distinct)
  then show ?thesis
    using assms by (simp add: hm keys_distinct_def group_sal_of_stored)
qed

lemma run_keys_distinct: "keys_distinct s \<Longrightarrow> keys_distinct (run sl s us)"
  by (induction us arbitrary: s) (simp_all add: handle_message_keys_distinct)

lemma handle_message_keys_mono:
  "dom (salary_of s g) \<subseteq> dom (salary_of (fst (handle_message sl s u)) g)"
proof (cases "chat u")
  case None
  then show ?thesis by (simp add: handle_message_def)
next
  case (Some g')
  show ?thesis
  proof (cases "g' = g")
    case True
    with Some handle_message_keeps_keys [of u g s sl] show ?thesis by blast
  next
    case False
    then have "g \<noteq> g'" by simp
    with handle_message_other_group(1) [OF Some, of g sl s] show ?thesis
      by (simp add: salary_of_def [abs_def])
  qed
qed

lemma run_keys_mono: "dom (salary_of s g) \<subseteq> dom (salary_of (run sl s us) g)"
proof (induction us arbitrary: s)
  case Nil
  then show ?case by simp
next
  case (Cons u us)
  have "dom (salary_of s g) \<subseteq> dom (salary_of (fst (handle_message sl s u)) g)"
    by (rule handle_message_keys_mono)
  also have "\<dots> \<subseteq> dom (salary_of (run sl (fst (handle_message sl s u)) us) g)"
    by (rule Cons.IH)
  finally show ?case by simp
qed

text \<open>
  C10. Every message that comes with a chat, whatever its text and whoever sends it, is
  handled in two stages: first today's day record of the group (at the date of read 0)
  and the sender's salary record are ensured, then the text is dispatched on the ensured
  dictionaries. The day record is there afterwards, and is the empty one when there was
  none; the sender's record is there afterwards, and when there was none it is the new
  record with no deductions, named "unknown" when the message supplies no name. The
  sender's record is never deleted: it is in the group's ledger after every later
  sequence of messages. So if the sender is not an admin, any later sweep by an admin in
  that group, run when the sender is not in today's list of the current session, lists
  the sender as missing and adds 50 to the sender's deductions, whether or not the
  sender ever marked. (The salary ledgers are taken to have distinct keys, as
  dictionaries do; the empty state has, and every message keeps it so.)
\<close>

theorem every_message_registers_sender:
  assumes "chat u = Some g" and "keys_distinct s"
  shows "(let d = today_str (reads u 0);
              gadr = ensure_day_structure (group_att_of s g) d;
              gsus = ensure_user_salary (group_sal_of s g) (from_id u) (display_name u)
          in handle_message sl s u =
               (case dispatch sl u (fst gadr) (snd gadr) (fst gsus) (snd gsus) of
                  (ga', gs', r, sv) \<Rightarrow> (stored s g ga' gs' sv, r)) \<and>
             map_of (fst gadr) d = Some (snd gadr) \<and>
             (map_of (group_att_of s g) d = None \<longrightarrow> snd gadr = \<lparr>morning = [], evening = []\<rparr>) \<and>
             map_of (fst gsus) (from_id u) = Some (snd gsus) \<and>
             (salary_of s g (from_id u) = None \<longrightarrow>
                snd gsus = \<lparr>username = (if display_name u = [] then ''unknown'' else display_name u),
                             deductions = 0, history = []\<rparr>)) \<and>
         (\<forall>vs. from_id u \<in> dom (salary_of (run sl (fst (handle_message sl s u)) vs) g)) \<and>
         (\<forall>vs w. chat w = Some g \<and> msg_text w = ''6'' \<and> from_id w \<in> set ADMIN_IDS \<and>
                 from_id u \<notin> set ADMIN_IDS \<and>
                 from_id u \<notin> user_id ` set (marked_in (run sl (fst (handle_message sl s u)) vs) g
                                (today_str (reads w 0)) (current_session (reads w 2))) \<longrightarrow>
            (\<exists>M n. snd (handle_message sl (run sl (fst (handle_message sl s u)) vs) w) =
                      Missing (current_session (reads w 2)) M \<and>
                    (from_id u, n) \<in> set M \<and>
                    deductions_of (fst (handle_message sl (run sl (fst (handle_message sl s u)) vs) w))
                        g (from_id u) =
                      deductions_of (run sl (fst (handle_message sl s u)) vs) g (from_id u) + 50))"
proof (intro conjI allI impI)
  let ?d = "today_str (reads u 0)"
  obtain ga dr where ed: "ensure_day_structure (group_att_of s g) ?d = (ga, dr)"
    by (cases "ensure_day_structure (group_att_of s g) ?d")
  obtain gs us where eu: "ensure_user_salary (group_sal_of s g) (from_id u) (display_name u) = (gs, us)"
    by (cases "ensure_user_salary (group_sal_of s g) (from_id u) (display_name u)")
  obtain ga' gs' r sv where di: "dispatch sl u ga dr gs us = (ga', gs', r, sv)"
    by (cases "dispatch sl u ga dr gs us") auto
  have a1: "handle_message sl s u = (stored s g ga' gs' sv, r)"
    by (rule handle_message_Some [OF assms(1) ed eu di])
  have a2: "map_of ga ?d = Some dr"
    using ensure_day_structure_facts(1) [OF ed] by simp
  have a3: "map_of (group_att_of s g) ?d = None \<longrightarrow> dr = \<lparr>morning = [], evening = []\<rparr>"
    using ensure_day_structure_facts(2) [OF ed] by simp
  have a4: "map_of gs (from_id u) = Some us"
    using ensure_user_salary_facts(1) [OF eu] by simp
  have a5: "salary_of s g (from_id u) = None \<longrightarrow>
      us = \<lparr>username = (if display_name u = [] then ''unknown'' else display_name u),
            deductions = 0, history = []\<rparr>"
    using eu by (auto simp: salary_of_def ensure_user_salary_def Let_def str_or_def)
  show "let d = today_str (reads u 0);
              gadr = ensure_day_structure (group_att_of s g) d;
              gsus = ensure_user_salary (group_sal_of s g) (from_id u) (display_name u)
          in handle_message sl s u =
               (case dispatch sl u (fst gadr) (snd gadr) (fst gsus) (snd gsus) of
                  (ga', gs', r, sv) \<Rightarrow> (stored s g ga' gs' sv, r)) \<and>
             map_of (fst gadr) d = Some (snd gadr) \<and>
             (map_of (group_att_of s g) d = None \<longrightarrow> snd gadr = \<lparr>morning = [], evening = []\<rparr>) \<and>
             map_of (fst gsus) (from_id u) = Some (snd gsus) \<and>
             (salary_of s g (from_id u) = None \<longrightarrow>
                snd gsus = \<lparr>username = (if display_name u = [] then ''unknown'' else display_name u),
                             deductions = 0, history = []\<rparr>)"
    using a1 a2 a3 a4 a5 by (simp add: Let_def ed eu di)
next
  fix vs
  let ?s1 = "fst (handle_message sl s u)"
  have "from_id u \<in> dom (salary_of ?s1 g)"
    using handle_message_keeps_keys [OF assms(1), of s sl] by blast
  then show "from_id u \<in> dom (salary_of (run sl ?s1 vs) g)"
    using run_keys_mono [of ?s1 g sl vs] by blast
next
  fix vs and w :: update
  let ?s1 = "fst (handle_message sl s u)"
  let ?s' = "run sl ?s1 vs"
  assume h: "chat w = Some g \<and> msg_text w = ''6'' \<and> from_id w \<in> set ADMIN_IDS \<and>
     from_id u \<notin> set ADMIN_IDS \<and>
     from_id u \<notin> user_id ` set (marked_in ?s' g (today_str (reads w 0)) (current_session (reads w 2)))"
  have "from_id u \<in> dom (salary_of ?s1 g)"
    using handle_message_keeps_keys [OF assms(1), of s sl] by blast
  then have "from_id u \<in> dom (salary_of ?s' g)"
    using run_keys_mono [of ?s1 g sl vs] by blast
  then obtain r where r: "salary_of ?s' g (from_id u) = Some r" by auto
  have "keys_distinct ?s'"
    using assms(2) by (intro run_keys_distinct handle_message_keys_distinct)
  then have dk: "distinct (map fst (group_sal_of ?s' g))" by (simp add: keys_distinct_def)
  from h have w: "chat w = Some g" "msg_text w = ''6''" "from_id w \<in> set ADMIN_IDS"
    and na: "from_id u \<notin> set ADMIN_IDS"
    and um: "from_id u \<notin> user_id ` set (marked_in ?s' g (today_str (reads w 0)) (current_session (reads w 2)))"
    by simp_all
  from sweep_effect [OF w dk r na um, of sl "today_str (reads w 0)" "current_session (reads w 2)"]
  obtain j M where s2: "salary_of (fst (handle_message sl ?s' w)) g (from_id u) =
        Some (penalised (today_str (reads w j)) ''missing'' r)"
    and m: "snd (handle_message sl ?s' w) = Missing (current_session (reads w 2)) M"
      "(from_id u, username r) \<in> set M"
    by blast
  have "deductions_of (fst (handle_message sl ?s' w)) g (from_id u) =
      deductions_of ?s' g (from_id u) + 50"
    by (simp add: deductions_of_def s2 r penalised_def LATE_PENALTY_def)
  with m show "\<exists>M n. snd (handle_message sl ?s' w) = Missing (current_session (reads w 2)) M \<and>
      (from_id u, n) \<in> set M \<and>
      deductions_of (fst (handle_message sl ?s' w)) g (from_id u) =
        deductions_of ?s' g (from_id u) + 50"
    by blast
qed

lemma hello_nameless_state:
  "handle_message sl init_state hello_nameless =
     (\<lparr>attendance_data = [(1, [(day1, \<lparr>morning = [], evening = []\<rparr>)])],
       salary_data = [(1, [(42, \<lparr>username = ''unknown'', deductions = 0, history = []\<rparr>)])],
       attendance_file = [], salary_file = []\<rparr>, NoReply)"
  by (simp add: hello_nameless_def run_defs window_defs at_time_def Let_def)

lemma sweep_after_hello:
  "handle_message sl (fst (handle_message sl init_state hello_nameless)) sweep1 =
     (\<lparr>attendance_data = [(1, [(day1, \<lparr>morning = [], evening = []\<rparr>)])],
       salary_data = [(1, [(42, \<lparr>username = ''unknown'', deductions = 50,
                                 history = [\<lparr>h_date = day1, amount = 50, reason = ''missing''\<rparr>]\<rparr>),
                           (7958117532, \<lparr>username = ''boss'', deductions = 0, history = []\<rparr>)])],
       attendance_file = [(1, [(day1, \<lparr>morning = [], evening = []\<rparr>)])],
       salary_file = [(1, [(42, \<lparr>username = ''unknown'', deductions = 50,
                                 history = [\<lparr>h_date = day1, amount = 50, reason = ''missing''\<rparr>]\<rparr>),
                           (7958117532, \<lparr>username = ''boss'', deductions = 0, history = []\<rparr>)])]\<rparr>,
      Missing Morning [(42, ''unknown'')])"
  unfolding hello_nameless_state fst_conv
  by (simp add: sweep1_def run_defs window_defs at_time_def Let_def)

theorem every_message_registers_sender_witness:
  "\<forall>sl. chat hello_nameless = Some 1 \<and> keys_distinct init_state \<and>
     from_id hello_nameless = 42 \<and> display_name hello_nameless = [] \<and>
     salary_of init_state 1 42 = None \<and>
     map_of (group_att_of init_state 1) day1 = None \<and>
     chat sweep1 = Some 1 \<and> msg_text sweep1 = ''6'' \<and> from_id sweep1 \<in> set ADMIN_IDS \<and>
     (42::int) \<notin> set ADMIN_IDS \<and>
     salary_of (fst (handle_message sl init_state hello_nameless)) 1 42 =
       Some \<lparr>username = ''unknown'', deductions = 0, history = []\<rparr> \<and>
     marked_in (fst (handle_message sl init_state hello_nameless)) 1 day1 Morning = [] \<and>
     map fst (group_att_of (fst (handle_message sl init_state hello_nameless)) 1) = [day1] \<and>
     snd (handle_message sl (fst (handle_message sl init_state hello_nameless)) sweep1) =
       Missing Morning [(42, ''unknown'')] \<and>
     deductions_of (fst (handle_message sl (fst (handle_message sl init_state hello_nameless))
        sweep1)) 1 42 = 50"
proof
  fix sl
  have a: "chat hello_nameless = Some 1" "from_id hello_nameless = 42"
    "display_name hello_nameless = []"
    by (simp_all add: hello_nameless_def display_name_def)
  have k: "keys_distinct init_state" by (rule keys_distinct_init)
  have n: "salary_of init_state 1 42 = None" "map_of (group_att_of init_state 1) day1 = None"
    "(42::int) \<notin> set ADMIN_IDS"
    by (simp_all add: salary_of_def group_sal_of_def group_att_of_def init_state_def ADMIN_IDS_def)
  have obs: "salary_of (fst (handle_message sl init_state hello_nameless)) 1 42 =
       Some \<lparr>username = ''unknown'', deductions = 0, history = []\<rparr>"
    "marked_in (fst (handle_message sl init_state hello_nameless)) 1 day1 Morning = []"
    "map fst (group_att_of (fst (handle_message sl init_state hello_nameless)) 1) = [day1]"
    "deductions_of (fst (handle_message sl (fst (handle_message sl init_state hello_nameless))
        sweep1)) 1 42 = 50"
    "snd (handle_message sl (fst (handle_message sl init_state hello_nameless)) sweep1) =
       Missing Morning [(42, ''unknown'')]"
    by (simp_all add: sweep_after_hello)
      (simp_all add: hello_nameless_state salary_of_def group_sal_of_def marked_in_def
        group_att_of_def sess_def deductions_of_def)
  show "chat hello_nameless = Some 1 \<and> keys_distinct init_state \<and>
     from_id hello_nameless = 42 \<and> display_name hello_nameless = [] \<and>
     salary_of init_state 1 42 = None \<and>
     map_of (group_att_of init_state 1) day1 = None \<and>
     chat sweep1 = Some 1 \<and> msg_text sweep1 = ''6'' \<and> from_id sweep1 \<in> set ADMIN_IDS \<and>
     (42::int) \<notin> set ADMIN_IDS \<and>
     salary_of (fst (handle_message sl init_state hello_nameless)) 1 42 =
       Some \<lparr>username = ''unknown'', deductions = 0, history = []\<rparr> \<and>
     marked_in (fst (handle_message sl init_state hello_nameless)) 1 day1 Morning = [] \<and>
     map fst (group_att_of (fst (handle_message sl init_state hello_nameless)) 1) = [day1] \<and>
     snd (handle_message sl (fst (handle_message sl init_state hello_nameless)) sweep1) =
       Missing Morning [(42, ''unknown'')] \<and>
     deductions_of (fst (handle_message sl (fst (handle_message sl init_state hello_nameless))
        sweep1)) 1 42 = 50"
    using every_message_registers_sender [OF a(1) k, of sl] a k n obs sweep1_facts(1,2,3)
    by simp
qed

section \<open>What load_json returns\<close>

text \<open>
  C9. The claim says that a readable store is returned as its parsed contents, and that
  a store that cannot be used is renamed aside. A store that holds the JSON text \<open>[]\<close>
  opens and parses, to the empty list; \<open>load_json\<close> returns the empty dictionary, which
  is another value (line 32 returns \<open>json.load(f) or {}\<close>), and the file stays where it
  is.
\<close>

theorem load_json_of_empty_list_store:
  "os_path_exists (only_attendance ''[]'') DATA_FILE \<and>
   read_store json_load_sample (only_attendance ''[]'') DATA_FILE = Inr (JList []) \<and>
   load_json json_load_sample rename_allowed (only_attendance ''[]'') DATA_FILE =
     Inr (JDict [], only_attendance ''[]'') \<and>
   JDict [] \<noteq> JList []"
  by (simp add: load_json_def read_store_def open_read_def os_path_exists_def
      only_attendance_def json_load_sample_def py_or_def DATA_FILE_def)

text \<open>
  C9, amended. \<open>load_json\<close> raises nothing that is an \<open>Exception\<close>, and it returns when
  the parser and \<open>os.rename\<close> raise nothing else:
  \<^item> a path that does not exist gives the empty dictionary, and nothing is renamed;
  \<^item> a store that opens and parses gives its parsed value when that value is true in
    Python's sense, and the empty dictionary when it is \<open>null\<close>, \<open>false\<close>, a zero, or an
    empty string, list or dictionary; the file stays where it is;
  \<^item> a store that exists and fails to open or to parse (truncated, malformed) gives the
    empty dictionary, after \<open>os.rename(path, path + ".bak")\<close>: when the rename goes
    through the file is at \<open>path + ".bak"\<close> and no longer at \<open>path\<close>; when the rename is
    refused the refusal is swallowed and the file stays where it is.
\<close>

theorem load_json_recovers:
  "(\<not> os_path_exists files path \<longrightarrow>
      load_json json_load refuse files path = Inr (JDict [], files)) \<and>
   (\<forall>v. os_path_exists files path \<and> read_store json_load files path = Inr v \<longrightarrow>
      load_json json_load refuse files path = Inr (if truthy v then v else JDict [], files)) \<and>
   (\<forall>e n. files path = Some n \<and> read_store json_load files path = Inl e \<and> is_Exception e \<longrightarrow>
      (refuse files path (path @ ''.bak'') = None \<longrightarrow>
         load_json json_load refuse files path =
           Inr (JDict [], (files(path := None))(path @ ''.bak'' \<mapsto> n))) \<and>
      (\<forall>e'. refuse files path (path @ ''.bak'') = Some e' \<and> is_Exception e' \<longrightarrow>
         load_json json_load refuse files path = Inr (JDict [], files))) \<and>
   (\<forall>e. load_json json_load refuse files path = Inl e \<longrightarrow> \<not> is_Exception e) \<and>
   ((\<forall>b e. json_load b = Inl e \<longrightarrow> is_Exception e) \<and>
    (\<forall>f a b e. refuse f a b = Some e \<longrightarrow> is_Exception e) \<longrightarrow>
      (\<exists>v files'. load_json json_load refuse files path = Inr (v, files')))"
proof (intro conjI allI impI)
  assume "\<not> os_path_exists files path"
  then show "load_json json_load refuse files path = Inr (JDict [], files)"
    by (simp add: load_json_def)
next
  fix v
  assume "os_path_exists files path \<and> read_store json_load files path = Inr v"
  then show "load_json json_load refuse files path =
      Inr (if truthy v then v else JDict [], files)"
    by (simp add: load_json_def py_or_def)
next
  fix e n
  assume h: "files path = Some n \<and> read_store json_load files path = Inl e \<and> is_Exception e"
    and r: "refuse files path (path @ ''.bak'') = None"
  then show "load_json json_load refuse files path =
      Inr (JDict [], (files(path := None))(path @ ''.bak'' \<mapsto> n))"
    by (simp add: load_json_def os_path_exists_def os_rename_def)
next
  fix e n e'
  assume h: "files path = Some n \<and> read_store json_load files path = Inl e \<and> is_Exception e"
    and r: "refuse files path (path @ ''.bak'') = Some e' \<and> is_Exception e'"
  then show "load_json json_load refuse files path = Inr (JDict [], files)"
    by (simp add: load_json_def os_path_exists_def os_rename_def)
next
  fix e
  assume "load_json json_load refuse files path = Inl e"
  then show "\<not> is_Exception e"
    by (auto simp: load_json_def split: if_splits sum.splits)
next
  assume h: "(\<forall>b e. json_load b = Inl e \<longrightarrow> is_Exception e) \<and>
    (\<forall>f a b e. refuse f a b = Some e \<longrightarrow> is_Exception e)"
  have o: "is_Exception e" if "open_read files path = Inl e" for e
    using that by (auto simp: open_read_def split: option.splits node.splits)
  have rs: "is_Exception e" if "read_store json_load files path = Inl e" for e
    using that h o by (auto simp: read_store_def split: sum.splits)
  have rn: "is_Exception e" if "os_rename refuse files path (path @ ''.bak'') = Inl e" for e
    using that h by (auto simp: os_rename_def split: option.splits)
  show "\<exists>v files'. load_json json_load refuse files path = Inr (v, files')"
    using rs rn by (auto simp: load_json_def split: sum.splits)
qed

theorem load_json_recovers_witness:
  "\<not> os_path_exists (only_attendance ''{'') SALARY_FILE \<and>
   load_json json_load_sample rename_allowed (only_attendance ''{'') SALARY_FILE =
     Inr (JDict [], only_attendance ''{'') \<and>
   os_path_exists (only_attendance one_group_text) DATA_FILE \<and>
   read_store json_load_sample (only_attendance one_group_text) DATA_FILE =
     Inr (JDict [(''-100'', JDict [])]) \<and>
   load_json json_load_sample rename_allowed (only_attendance one_group_text) DATA_FILE =
     Inr (JDict [(''-100'', JDict [])], only_attendance one_group_text) \<and>
   read_store json_load_sample (only_attendance ''null'') DATA_FILE = Inr JNull \<and>
   load_json json_load_sample rename_allowed (only_attendance ''null'') DATA_FILE =
     Inr (JDict [], only_attendance ''null'') \<and>
   only_attendance ''{'' DATA_FILE = Some (Bytes ''{'') \<and>
   read_store json_load_sample (only_attendance ''{'') DATA_FILE = Inl JSONDecodeError \<and>
   is_Exception JSONDecodeError \<and>
   rename_allowed (only_attendance ''{'') DATA_FILE (DATA_FILE @ ''.bak'') = None \<and>
   load_json json_load_sample rename_allowed (only_attendance ''{'') DATA_FILE =
     Inr (JDict [], ((only_attendance ''{'')(DATA_FILE := None))(DATA_FILE @ ''.bak'' \<mapsto> Bytes ''{'')) \<and>
   rename_refused (only_attendance ''{'') DATA_FILE (DATA_FILE @ ''.bak'') = Some OSError \<and>
   is_Exception OSError \<and>
   load_json json_load_sample rename_refused (only_attendance ''{'') DATA_FILE =
     Inr (JDict [], only_attendance ''{'') \<and>
   (\<exists>v files'. load_json json_load_sample rename_refused (only_attendance ''{'') DATA_FILE =
      Inr (v, files'))"
proof -
  let ?bad = "only_attendance ''{''"
  let ?good = "only_attendance one_group_text"
  let ?null = "only_attendance ''null''"
  have p1: "\<not> os_path_exists ?bad SALARY_FILE"
    by (simp add: os_path_exists_def only_attendance_def DATA_FILE_def SALARY_FILE_def)
  have p2: "os_path_exists ?good DATA_FILE"
    by (simp add: os_path_exists_def only_attendance_def)
  have p3: "os_path_exists ?null DATA_FILE"
    by (simp add: os_path_exists_def only_attendance_def)
  have p4: "?bad DATA_FILE = Some (Bytes ''{'')"
    by (simp add: only_attendance_def)
  have r2: "read_store json_load_sample ?good DATA_FILE = Inr (JDict [(''-100'', JDict [])])"
    by (simp add: read_store_def open_read_def only_attendance_def json_load_sample_def
        one_group_text_def)
  have r3: "read_store json_load_sample ?null DATA_FILE = Inr JNull"
    by (simp add: read_store_def open_read_def only_attendance_def json_load_sample_def)
  have r4: "read_store json_load_sample ?bad DATA_FILE = Inl JSONDecodeError"
    by (simp add: read_store_def open_read_def only_attendance_def json_load_sample_def
        one_group_text_def)
  have e1: "\<forall>b e. json_load_sample b = Inl e \<longrightarrow> is_Exception e"
    by (simp add: json_load_sample_def)
  have e2: "\<forall>f a b e. rename_refused f a b = Some e \<longrightarrow> is_Exception e"
    by (simp add: rename_refused_def)
  have q1: "rename_allowed ?bad DATA_FILE (DATA_FILE @ ''.bak'') = None"
    by (simp add: rename_allowed_def)
  have q2: "rename_refused ?bad DATA_FILE (DATA_FILE @ ''.bak'') = Some OSError"
    by (simp add: rename_refused_def)
  have x: "is_Exception JSONDecodeError" "is_Exception OSError"
    by simp_all
  note T1 = load_json_recovers [of ?bad SALARY_FILE json_load_sample rename_allowed]
  note T2 = load_json_recovers [of ?good DATA_FILE json_load_sample rename_allowed]
  note T3 = load_json_recovers [of ?null DATA_FILE json_load_sample rename_allowed]
  note T4 = load_json_recovers [of ?bad DATA_FILE json_load_sample rename_allowed]
  note T5 = load_json_recovers [of ?bad DATA_FILE json_load_sample rename_refused]
  have c1: "load_json json_load_sample rename_allowed ?bad SALARY_FILE = Inr (JDict [], ?bad)"
    using T1 p1 by blast
  have "load_json json_load_sample rename_allowed ?good DATA_FILE =
      Inr (if truthy (JDict [(''-100'', JDict [])]) then JDict [(''-100'', JDict [])] else JDict [],
           ?good)"
    using T2 p2 r2 by blast
  then have c2: "load_json json_load_sample rename_allowed ?good DATA_FILE =
      Inr (JDict [(''-100'', JDict [])], ?good)"
    by simp
  have "load_json json_load_sample rename_allowed ?null DATA_FILE =
      Inr (if truthy JNull then JNull else JDict [], ?null)"
    using T3 p3 r3 by blast
  then have c3: "load_json json_load_sample rename_allowed ?null DATA_FILE = Inr (JDict [], ?null)"
    by simp
  have c4: "load_json json_load_sample rename_allowed ?bad DATA_FILE =
      Inr (JDict [], (?bad(DATA_FILE := None))(DATA_FILE @ ''.bak'' \<mapsto> Bytes ''{''))"
    using T4 p4 r4 x(1) q1 by blast
  have c5: "load_json json_load_sample rename_refused ?bad DATA_FILE = Inr (JDict [], ?bad)"
    using T5 p4 r4 x q2 by blast
  have c6: "\<exists>v files'. load_json json_load_sample rename_refused ?bad DATA_FILE = Inr (v, files')"
    using T5 e1 e2 by blast
  show ?thesis
    by (intro conjI p1 p2 p4 r2 r3 r4 q1 q2 x c1 c2 c3 c4 c5 c6)
qed

end
